theory Spec2Isabelle
  imports Complex_Main "HOL-Library.Monad_Syntax"
begin

section \<open>Breakpoint tables as JavaScript objects\<close>

text \<open>
  A breakpoint table (\<open>ViewportConfig.breakpoints\<close>, \<open>customBreakpoints\<close>,
  \<open>DEFAULT_BREAKPOINTS\<close>) is a plain object from names to numbers. It is modelled by the
  list of its properties in creation order. Thresholds and widths are integers
  (\<open>window.innerWidth\<close> is one; fractional thresholds, NaN and infinities are outside the
  model). A list that repeats a key is read as an object literal that repeats the key does:
  the later value wins and the property keeps its first position.
\<close>

type_synonym js_object = "(string \<times> int) list"

fun has_key :: "string \<Rightarrow> js_object \<Rightarrow> bool" where
  "has_key k [] = False"
| "has_key k ((k', v) # ps) = (k = k' \<or> has_key k ps)"

fun overwrite :: "string \<Rightarrow> int \<Rightarrow> js_object \<Rightarrow> js_object" where
  "overwrite k v [] = []"
| "overwrite k v ((k', v') # ps) =
     (if k = k' then (k', v) # overwrite k v ps else (k', v') # overwrite k v ps)"

text \<open>\<open>CreateDataProperty\<close>: an existing key keeps its place, a new key goes last.\<close>

definition put :: "js_object \<Rightarrow> string \<times> int \<Rightarrow> js_object" where
  "put ps kv = (if has_key (fst kv) ps then overwrite (fst kv) (snd kv) ps else ps @ [kv])"

definition props :: "js_object \<Rightarrow> js_object" where
  "props xs = foldl put [] xs"

text \<open>
  Own property keys are enumerated with the array indices first, in ascending numeric
  order, then the other string keys in creation order. An array index is the canonical
  decimal form of an integer below \<open>2^32 - 1\<close>.
\<close>

definition is_digit :: "char \<Rightarrow> bool" where
  "is_digit c = (48 \<le> (of_char c :: int) \<and> (of_char c :: int) \<le> 57)"

definition dec_val :: "string \<Rightarrow> int" where
  "dec_val s = foldl (\<lambda>a c. 10 * a + (of_char c - 48)) 0 s"

definition is_array_index :: "string \<Rightarrow> bool" where
  "is_array_index s =
     (s \<noteq> [] \<and> list_all is_digit s \<and> (length s = 1 \<or> hd s \<noteq> CHR ''0'')
      \<and> dec_val s < 4294967295)"

definition Object_entries :: "js_object \<Rightarrow> js_object" where
  "Object_entries obj =
     (let ps = props obj in
      sort_key (\<lambda>p. dec_val (fst p)) (filter (\<lambda>p. is_array_index (fst p)) ps)
      @ filter (\<lambda>p. \<not> is_array_index (fst p)) ps)"

text \<open>Property read \<open>obj.k\<close>; \<open>None\<close> is \<open>undefined\<close>.\<close>

definition get_prop :: "js_object \<Rightarrow> string \<Rightarrow> int option" where
  "get_prop obj k = map_of (props obj) k"

text \<open>The object spread \<open>{ ...a, ...b }\<close>: the properties of \<open>a\<close>, then those of \<open>b\<close>.\<close>

definition spread :: "js_object \<Rightarrow> js_object \<Rightarrow> js_object" where
  "spread a b = foldl put (foldl put [] (Object_entries a)) (Object_entries b)"

section \<open>Configuration\<close>

definition DEFAULT_BREAKPOINTS :: js_object where
  "DEFAULT_BREAKPOINTS =
     [(''xs'', 0), (''sm'', 576), (''md'', 768), (''lg'', 992), (''xl'', 1200), (''xxl'', 1400)]"

text \<open>
  \<open>ViewportConfig\<close> as the caller passes it: every key is optional, \<open>None\<close> is a key
  that is absent. (A key present with the value \<open>undefined\<close> is outside the model.)
\<close>

record ViewportConfig =
  opt_breakpoints :: "js_object option"
  opt_debounceDelay :: "nat option"
  opt_enableTouch :: "bool option"
  opt_enableHighDPI :: "bool option"
  opt_customBreakpoints :: "js_object option"

text \<open>\<open>Required<ViewportConfig>\<close>, the type of \<open>this.config\<close>.\<close>

record RequiredConfig =
  breakpoints :: js_object
  debounceDelay :: nat
  enableTouch :: bool
  enableHighDPI :: bool
  customBreakpoints :: js_object

definition DEFAULT_CONFIG :: RequiredConfig where
  "DEFAULT_CONFIG =
     \<lparr> breakpoints = DEFAULT_BREAKPOINTS, debounceDelay = 100, enableTouch = True,
       enableHighDPI = True, customBreakpoints = [] \<rparr>"

text \<open>
  \<open>this.config = { ...DEFAULT_CONFIG, ...config }\<close>: a key of \<open>config\<close> replaces the
  default as a whole; a \<open>breakpoints\<close> object is not merged into the default table.
\<close>

definition merge_config :: "ViewportConfig \<Rightarrow> RequiredConfig" where
  "merge_config c =
     \<lparr> breakpoints = (case opt_breakpoints c of None \<Rightarrow> breakpoints DEFAULT_CONFIG | Some b \<Rightarrow> b),
       debounceDelay = (case opt_debounceDelay c of None \<Rightarrow> debounceDelay DEFAULT_CONFIG | Some d \<Rightarrow> d),
       enableTouch = (case opt_enableTouch c of None \<Rightarrow> enableTouch DEFAULT_CONFIG | Some t \<Rightarrow> t),
       enableHighDPI = (case opt_enableHighDPI c of None \<Rightarrow> enableHighDPI DEFAULT_CONFIG | Some h \<Rightarrow> h),
       customBreakpoints =
         (case opt_customBreakpoints c of None \<Rightarrow> customBreakpoints DEFAULT_CONFIG | Some b \<Rightarrow> b) \<rparr>"

definition empty_config :: ViewportConfig where
  "empty_config =
     \<lparr> opt_breakpoints = None, opt_debounceDelay = None, opt_enableTouch = None,
       opt_enableHighDPI = None, opt_customBreakpoints = None \<rparr>"

section \<open>Device classification and breakpoint lookup\<close>

text \<open>\<open>a ?? b\<close> on a property that may be missing.\<close>

definition nullish :: "int option \<Rightarrow> int \<Rightarrow> int" where
  "nullish a b = (case a of None \<Rightarrow> b | Some v \<Rightarrow> v)"

text \<open>
  \<open>DEFAULT_BREAKPOINTS.md\<close> and \<open>DEFAULT_BREAKPOINTS.lg\<close>: the constant table has
  both keys, so the reads give 768 and 992.
\<close>

definition default_md :: int where
  "default_md = nullish (get_prop DEFAULT_BREAKPOINTS ''md'') 0"

definition default_lg :: int where
  "default_lg = nullish (get_prop DEFAULT_BREAKPOINTS ''lg'') 0"

definition calculateIsMobile :: "RequiredConfig \<Rightarrow> int \<Rightarrow> bool" where
  "calculateIsMobile cfg width =
     (let mdBreakpoint = nullish (get_prop (breakpoints cfg) ''md'') default_md
      in width < mdBreakpoint)"

definition calculateIsTablet :: "RequiredConfig \<Rightarrow> int \<Rightarrow> bool" where
  "calculateIsTablet cfg width =
     (let mdBreakpoint = nullish (get_prop (breakpoints cfg) ''md'') default_md;
          lgBreakpoint = nullish (get_prop (breakpoints cfg) ''lg'') default_lg
      in width \<ge> mdBreakpoint \<and> width < lgBreakpoint)"

text \<open>
  \<open>Array.prototype.sort\<close> is stable, and so is \<open>sort_key\<close>: the comparator
  \<open>b - a\<close> is sorting by the negated threshold, \<open>a - b\<close> by the threshold.
\<close>

definition allBreakpoints :: "RequiredConfig \<Rightarrow> js_object" where
  "allBreakpoints cfg = spread (breakpoints cfg) (customBreakpoints cfg)"

definition sortedBreakpoints :: "RequiredConfig \<Rightarrow> js_object" where
  "sortedBreakpoints cfg = sort_key (\<lambda>p. - snd p) (Object_entries (allBreakpoints cfg))"

definition calculateBreakpoint :: "RequiredConfig \<Rightarrow> int \<Rightarrow> string" where
  "calculateBreakpoint cfg width =
     (case find (\<lambda>p. width \<ge> snd p) (sortedBreakpoints cfg) of
        Some p \<Rightarrow> fst p
      | None \<Rightarrow>
          (case sort_key snd (Object_entries (allBreakpoints cfg)) of
             [] \<Rightarrow> ''xs''
           | smallestBreakpoint # _ \<Rightarrow> fst smallestBreakpoint))"


section \<open>The viewport state\<close>

datatype orientation = Portrait | Landscape

record ViewportState =
  width :: int
  height :: int
  breakpoint :: string
  isMobile :: bool
  isTablet :: bool
  isDesktop :: bool
  isTouch :: bool
  orientation :: orientation
  pixelRatio :: rat
  availableWidth :: int
  availableHeight :: int

text \<open>
  What the engine reads from the platform. \<open>screen = None\<close> is a missing
  \<open>window.screen\<close>, \<open>msMaxTouchPoints = None\<close> a missing legacy property;
  \<open>hasResizeObserver\<close> is \<open>typeof ResizeObserver !== 'undefined'\<close> and
  \<open>hasVisualViewport\<close> the three-part test on \<open>window.visualViewport\<close>.
\<close>

record Screen =
  availWidth :: "int option"
  availHeight :: "int option"

record Window =
  innerWidth :: int
  innerHeight :: int
  devicePixelRatio :: rat
  screen :: "Screen option"
  ontouchstart :: bool
  maxTouchPoints :: int
  msMaxTouchPoints :: "int option"
  hasResizeObserver :: bool
  hasVisualViewport :: bool

definition detectTouch :: "Window \<Rightarrow> bool" where
  "detectTouch win =
     (ontouchstart win \<or> maxTouchPoints win > 0
      \<or> (case msMaxTouchPoints win of None \<Rightarrow> False | Some m \<Rightarrow> m > 0))"

definition calculateState :: "RequiredConfig \<Rightarrow> Window \<Rightarrow> ViewportState" where
  "calculateState cfg win =
     (let w = innerWidth win;
          h = innerHeight win;
          ratio = (if enableHighDPI cfg
                   then (if devicePixelRatio win = 0 then 1 else devicePixelRatio win) else 1);
          availW = (case screen win of None \<Rightarrow> w
                    | Some sc \<Rightarrow> (case availWidth sc of None \<Rightarrow> w | Some a \<Rightarrow> a));
          availH = (case screen win of None \<Rightarrow> h
                    | Some sc \<Rightarrow> (case availHeight sc of None \<Rightarrow> h | Some a \<Rightarrow> a));
          mobile = calculateIsMobile cfg w;
          tablet = calculateIsTablet cfg w;
          desktop = (\<not> mobile \<and> \<not> tablet);
          touch = (if enableTouch cfg then detectTouch win else False);
          orient = (if w > h then Landscape else Portrait);
          bp = calculateBreakpoint cfg w
      in \<lparr> width = w, height = h, breakpoint = bp, isMobile = mobile, isTablet = tablet,
           isDesktop = desktop, isTouch = touch, orientation = orient, pixelRatio = ratio,
           availableWidth = availW, availableHeight = availH \<rparr>)"

section \<open>The event manager\<close>

datatype EventType =
  Resize | OrientationChange | BreakpointChange | TouchChange | Scroll | Visibility

datatype arg =
  StateArg ViewportState | NameArg string | OrientationArg orientation | FlagArg bool

text \<open>
  A callback is known by its identity. What a subscriber's callback does when it is
  called is given by a table from identities to the calls it makes on the registry: it
  may subscribe a callback, unsubscribe one (or call the function \<open>on\<close> returned, which
  is \<open>off\<close> on the same pair), and it may throw, which ends it.
\<close>

type_synonym callback = nat

datatype action = Subscribe EventType callback | Unsubscribe EventType callback | Throw

type_synonym handlers = "callback \<Rightarrow> action list"

text \<open>
  A JavaScript \<open>Set\<close> keeps its entries in insertion order. \<open>delete\<close> leaves an empty
  slot behind and \<open>add\<close> of a new value appends, so that a \<open>forEach\<close> in progress skips
  what was deleted before its turn and reaches what was added. \<open>None\<close> is an empty slot.
\<close>

type_synonym 'a js_set = "'a option list"

definition set_add :: "'a js_set \<Rightarrow> 'a \<Rightarrow> 'a js_set" where
  "set_add s x = (if Some x \<in> set s then s else s @ [Some x])"

definition set_delete :: "'a js_set \<Rightarrow> 'a \<Rightarrow> 'a js_set" where
  "set_delete s x = map (\<lambda>e. if e = Some x then None else e) s"

definition set_clear :: "'a js_set \<Rightarrow> 'a js_set" where
  "set_clear s = map (\<lambda>e. None) s"

definition set_values :: "'a js_set \<Rightarrow> 'a list" where
  "set_values s = concat (map (\<lambda>e. case e of None \<Rightarrow> [] | Some x \<Rightarrow> [x]) s)"

definition set_size :: "'a js_set \<Rightarrow> nat" where
  "set_size s = length (set_values s)"

text \<open>
  \<open>listeners\<close> is a \<open>Map\<close> from event kinds to \<open>Set\<close> objects. The sets live in a store
  and the map holds their addresses: \<open>off\<close> can drop a key while an emission still
  walks the set that was under it. The last three fields record what happened: the
  calls of \<open>emit\<close>, the callbacks called, and the errors reported to the console.
\<close>

type_synonym addr = nat

record EventManager =
  listeners :: "EventType \<Rightarrow> addr option"
  store :: "addr \<Rightarrow> callback js_set"
  next_addr :: addr
  rafId :: "nat option"
  rafCallbacks :: "nat js_set"
  emitted :: "(EventType \<times> arg list) list"
  invoked :: "(callback \<times> EventType \<times> arg list) list"
  console_errors :: "EventType list"

definition new_EventManager :: EventManager where
  "new_EventManager =
     \<lparr> listeners = (\<lambda>e. None), store = (\<lambda>a. []), next_addr = 0, rafId = None,
       rafCallbacks = [], emitted = [], invoked = [], console_errors = [] \<rparr>"

definition EventManager_on :: "EventType \<Rightarrow> callback \<Rightarrow> EventManager \<Rightarrow> EventManager" where
  "EventManager_on ev cb em =
     (case listeners em ev of
        None \<Rightarrow>
          em\<lparr> listeners := (listeners em)(ev \<mapsto> next_addr em),
              store := (store em)(next_addr em := set_add [] cb),
              next_addr := Suc (next_addr em) \<rparr>
      | Some a \<Rightarrow> em\<lparr> store := (store em)(a := set_add (store em a) cb) \<rparr>)"

definition EventManager_off :: "EventType \<Rightarrow> callback \<Rightarrow> EventManager \<Rightarrow> EventManager" where
  "EventManager_off ev cb em =
     (case listeners em ev of
        None \<Rightarrow> em
      | Some a \<Rightarrow>
          (let eventListeners = set_delete (store em a) cb;
               em' = em\<lparr> store := (store em)(a := eventListeners) \<rparr>
           in if set_size eventListeners = 0
              then em'\<lparr> listeners := (listeners em')(ev := None) \<rparr> else em'))"

fun run_actions :: "EventType \<Rightarrow> action list \<Rightarrow> EventManager \<Rightarrow> EventManager" where
  "run_actions ev [] em = em"
| "run_actions ev (Subscribe e cb # as) em = run_actions ev as (EventManager_on e cb em)"
| "run_actions ev (Unsubscribe e cb # as) em = run_actions ev as (EventManager_off e cb em)"
| "run_actions ev (Throw # as) em = em\<lparr> console_errors := console_errors em @ [ev] \<rparr>"

text \<open>One callback of an emission, inside its \<open>try\<close>/\<open>catch\<close>.\<close>

definition call_listener ::
  "handlers \<Rightarrow> EventType \<Rightarrow> arg list \<Rightarrow> callback \<Rightarrow> EventManager \<Rightarrow> EventManager" where
  "call_listener H ev args cb em =
     run_actions ev (H cb) (em\<lparr> invoked := invoked em @ [(cb, ev, args)] \<rparr>)"

text \<open>
  \<open>eventListeners.forEach\<close> on the set at address \<open>a\<close>, from slot \<open>i\<close>. The set is read
  again at every step. A callback that unsubscribes and subscribes itself again is
  appended each time, which can keep the loop from ending: not returning is \<open>None\<close>.
\<close>

partial_function (option) forEach_listener ::
  "handlers \<Rightarrow> EventType \<Rightarrow> arg list \<Rightarrow> addr \<Rightarrow> nat \<Rightarrow> EventManager \<Rightarrow> EventManager option" where
  "forEach_listener H ev args a i em =
     (if i < length (store em a)
      then (case store em a ! i of
              None \<Rightarrow> forEach_listener H ev args a (Suc i) em
            | Some cb \<Rightarrow> forEach_listener H ev args a (Suc i) (call_listener H ev args cb em))
      else Some em)"

declare forEach_listener.simps [code]

definition emit :: "handlers \<Rightarrow> EventType \<Rightarrow> arg list \<Rightarrow> EventManager \<Rightarrow> EventManager option" where
  "emit H ev args em =
     (let em' = em\<lparr> emitted := emitted em @ [(ev, args)] \<rparr>
      in case listeners em' ev of
           None \<Rightarrow> Some em'
         | Some a \<Rightarrow> forEach_listener H ev args a 0 em')"


text \<open>
  Two readings of a manager: the callbacks registered for a kind, in the order of the
  set (\<open>getListenerCount\<close> is the length), and the callbacks an emission calls, in the
  order of the calls (\<open>None\<close> when the emission does not return).
\<close>

definition registered :: "EventManager \<Rightarrow> EventType \<Rightarrow> callback list" where
  "registered em ev = (case listeners em ev of None \<Rightarrow> [] | Some a \<Rightarrow> set_values (store em a))"

definition emit_calls :: "handlers \<Rightarrow> EventType \<Rightarrow> arg list \<Rightarrow> EventManager \<Rightarrow> callback list option" where
  "emit_calls H ev args em =
     map_option (\<lambda>em'. map fst (drop (length (invoked em)) (invoked em'))) (emit H ev args em)"

text \<open>A callback that leaves the registry alone: all it may do is throw.\<close>

definition quiet :: "handlers \<Rightarrow> callback \<Rightarrow> bool" where
  "quiet H cb = list_all (\<lambda>act. act = Throw) (H cb)"

section \<open>The host: listeners, timers and animation frames\<close>

text \<open>
  The browser side of the engine: the window it reads, the native listener
  registrations in effect, whether a \<open>ResizeObserver\<close> of the engine is observing the
  document element, and the pending timers and animation frames. A timer is kept with
  its delay and with what its callback does; the callback of every animation frame the
  engine requests is the flush of \<open>scheduleRAF\<close>.
\<close>

datatype target =
  Window_resize | Window_orientationchange | VisualViewport_resize | MediaQuery string

datatype listener = DebouncedUpdate | OrientationListener | MediaQueryListener

datatype timer_callback = CallUpdateState

record Host =
  window :: "Window option"
  registrations :: "(target \<times> listener) list"
  observing :: bool
  timers :: "(nat \<times> nat \<times> timer_callback) list"
  next_timer :: nat
  frames :: "nat list"
  next_frame :: nat

definition addEventListener :: "target \<Rightarrow> listener \<Rightarrow> Host \<Rightarrow> Host" where
  "addEventListener t l host = host\<lparr> registrations := registrations host @ [(t, l)] \<rparr>"

definition setTimeout :: "timer_callback \<Rightarrow> nat \<Rightarrow> Host \<Rightarrow> nat \<times> Host" where
  "setTimeout cb delay host =
     (next_timer host,
      host\<lparr> timers := timers host @ [(next_timer host, delay, cb)],
            next_timer := Suc (next_timer host) \<rparr>)"

definition clearTimeout :: "nat option \<Rightarrow> Host \<Rightarrow> Host" where
  "clearTimeout tid host =
     (case tid of
        None \<Rightarrow> host
      | Some i \<Rightarrow> host\<lparr> timers := filter (\<lambda>t. fst t \<noteq> i) (timers host) \<rparr>)"

definition requestAnimationFrame :: "Host \<Rightarrow> nat \<times> Host" where
  "requestAnimationFrame host =
     (next_frame host,
      host\<lparr> frames := frames host @ [next_frame host], next_frame := Suc (next_frame host) \<rparr>)"

definition cancelAnimationFrame :: "nat \<Rightarrow> Host \<Rightarrow> Host" where
  "cancelAnimationFrame i host = host\<lparr> frames := filter (\<lambda>f. f \<noteq> i) (frames host) \<rparr>"

text \<open>\<open>scheduleRAF(callback)\<close>; the callback is a closure, known by its identity.\<close>

definition scheduleRAF :: "nat \<Rightarrow> EventManager \<Rightarrow> Host \<Rightarrow> EventManager \<times> Host" where
  "scheduleRAF cb em host =
     (let em' = em\<lparr> rafCallbacks := set_add (rafCallbacks em) cb \<rparr>
      in if rafId em' = None
         then (let (i, host') = requestAnimationFrame host in (em'\<lparr> rafId := Some i \<rparr>, host'))
         else (em', host))"

text \<open>
  The function \<open>debounce(func, delay)\<close> returns, called once. \<open>tid\<close> is its variable
  \<open>timeoutId\<close>, which the call sets.
\<close>

definition debounced :: "timer_callback \<Rightarrow> nat \<Rightarrow> nat option \<Rightarrow> Host \<Rightarrow> nat option \<times> Host" where
  "debounced func delay tid host =
     (let (i, host') = setTimeout func delay (clearTimeout tid host) in (Some i, host'))"

definition EventManager_destroy :: "EventManager \<Rightarrow> Host \<Rightarrow> EventManager \<times> Host" where
  "EventManager_destroy em host =
     (let em' = em\<lparr> listeners := (\<lambda>e. None), rafCallbacks := set_clear (rafCallbacks em) \<rparr>
      in case rafId em' of
           None \<Rightarrow> (em', host)
         | Some i \<Rightarrow> (em'\<lparr> rafId := None \<rparr>, cancelAnimationFrame i host))"

section \<open>The viewport core\<close>

text \<open>
  \<open>resizeObserver\<close> tells whether the field holds an observer or \<open>null\<close>;
  \<open>mediaQueryLists\<close> maps a breakpoint name to the list of its \<open>min-width\<close> query, kept
  by the threshold of the query. \<open>timeoutId\<close> is the variable of the one debounced
  function \<open>setupEventListeners\<close> creates. \<open>next_closure\<close> numbers the closures
  \<open>() => this.updateState()\<close> as they are created, and \<open>updates\<close> counts the
  recomputations: the executions of \<open>updateState\<close> that pass its guard.
\<close>

record ViewportCore =
  config :: RequiredConfig
  eventManager :: EventManager
  currentState :: "ViewportState option"
  resizeObserver :: bool
  mediaQueryLists :: "(string \<times> int) list"
  isDestroyed :: bool
  timeoutId :: "nat option"
  next_closure :: nat
  updates :: nat

definition emitChangeEvents ::
  "handlers \<Rightarrow> ViewportState \<Rightarrow> ViewportState \<Rightarrow> EventManager \<Rightarrow> EventManager option" where
  "emitChangeEvents H previousState newState em =
     do {
       em1 \<leftarrow> (if breakpoint previousState \<noteq> breakpoint newState
               then emit H BreakpointChange
                      [NameArg (breakpoint newState), NameArg (breakpoint previousState)] em
               else Some em);
       em2 \<leftarrow> (if orientation previousState \<noteq> orientation newState
               then emit H OrientationChange [OrientationArg (orientation newState)] em1
               else Some em1);
       (if isTouch previousState \<noteq> isTouch newState
        then emit H TouchChange [FlagArg (isTouch newState)] em2
        else Some em2)
     }"

definition updateState :: "handlers \<Rightarrow> Window option \<Rightarrow> ViewportCore \<Rightarrow> ViewportCore option" where
  "updateState H w vc =
     (case w of
        None \<Rightarrow> Some vc
      | Some win \<Rightarrow>
          if isDestroyed vc then Some vc
          else
            (let previousState = currentState vc;
                 newState = calculateState (config vc) win;
                 vc' = vc\<lparr> currentState := Some newState, updates := Suc (updates vc) \<rparr>
             in do {
               em1 \<leftarrow> (case previousState of
                         None \<Rightarrow> Some (eventManager vc')
                       | Some prev \<Rightarrow> emitChangeEvents H prev newState (eventManager vc'));
               em2 \<leftarrow> emit H Resize [StateArg newState] em1;
               Some (vc'\<lparr> eventManager := em2 \<rparr>)
             }))"

text \<open>\<open>getState()\<close>; the state returned is \<open>None\<close> when the field is \<open>null\<close>.\<close>

definition getState ::
  "handlers \<Rightarrow> Window option \<Rightarrow> ViewportCore \<Rightarrow> (ViewportState option \<times> ViewportCore) option" where
  "getState H w vc =
     do {
       vc' \<leftarrow> (if currentState vc = None then updateState H w vc else Some vc);
       Some (currentState vc', vc')
     }"

definition on :: "EventType \<Rightarrow> callback \<Rightarrow> ViewportCore \<Rightarrow> ViewportCore" where
  "on ev cb vc = vc\<lparr> eventManager := EventManager_on ev cb (eventManager vc) \<rparr>"

definition off :: "EventType \<Rightarrow> callback \<Rightarrow> ViewportCore \<Rightarrow> ViewportCore" where
  "off ev cb vc = vc\<lparr> eventManager := EventManager_off ev cb (eventManager vc) \<rparr>"

definition destroy :: "ViewportCore \<Rightarrow> Host \<Rightarrow> ViewportCore \<times> Host" where
  "destroy vc host =
     (if isDestroyed vc then (vc, host)
      else
        (let vc1 = vc\<lparr> isDestroyed := True \<rparr>;
             (vc2, host2) = (if resizeObserver vc1
                             then (vc1\<lparr> resizeObserver := False \<rparr>, host\<lparr> observing := False \<rparr>)
                             else (vc1, host));
             vc3 = vc2\<lparr> mediaQueryLists := [] \<rparr>;
             (em, host3) = EventManager_destroy (eventManager vc3) host2
         in (vc3\<lparr> eventManager := em, currentState := None \<rparr>, host3)))"

subsection \<open>Construction\<close>

definition setupEventListeners :: "Window \<Rightarrow> ViewportCore \<Rightarrow> Host \<Rightarrow> ViewportCore \<times> Host" where
  "setupEventListeners win vc host =
     (let (vc1, host1) = (if hasResizeObserver win
                          then (vc\<lparr> resizeObserver := True \<rparr>, host\<lparr> observing := True \<rparr>)
                          else (vc, addEventListener Window_resize DebouncedUpdate host));
          host2 = addEventListener Window_orientationchange OrientationListener host1;
          host3 = (if hasVisualViewport win
                   then addEventListener VisualViewport_resize DebouncedUpdate host2
                   else host2)
      in (vc1, host3))"

definition setupMediaQueries :: "ViewportCore \<Rightarrow> Host \<Rightarrow> ViewportCore \<times> Host" where
  "setupMediaQueries vc host =
     foldl (\<lambda>(vc', host') (name, v).
              (vc'\<lparr> mediaQueryLists := put (mediaQueryLists vc') (name, v) \<rparr>,
               addEventListener (MediaQuery name) MediaQueryListener host'))
       (vc, host) (Object_entries (allBreakpoints (config vc)))"

text \<open>\<open>initialize()\<close>; without a window it returns at once.\<close>

definition initialize :: "handlers \<Rightarrow> ViewportCore \<Rightarrow> Host \<Rightarrow> (ViewportCore \<times> Host) option" where
  "initialize H vc host =
     (case window host of
        None \<Rightarrow> Some (vc, host)
      | Some win \<Rightarrow>
          (let (vc1, host1) = setupEventListeners win vc host;
               (vc2, host2) = setupMediaQueries vc1 host1
           in do { vc3 \<leftarrow> updateState H (window host2) vc2; Some (vc3, host2) }))"

text \<open>The constructor: the field initialisers, the merged configuration, \<open>initialize()\<close>.\<close>

definition new_ViewportCore ::
  "handlers \<Rightarrow> ViewportConfig \<Rightarrow> Host \<Rightarrow> (ViewportCore \<times> Host) option" where
  "new_ViewportCore H c host =
     initialize H
       \<lparr> config = merge_config c, eventManager = new_EventManager, currentState = None,
         resizeObserver = False, mediaQueryLists = [], isDestroyed = False, timeoutId = None,
         next_closure = 0, updates = 0 \<rparr>
       host"

subsection \<open>What the host runs\<close>

text \<open>A closure \<open>() => this.updateState()\<close> is created and handed to \<open>scheduleRAF\<close>.\<close>

definition schedule_update :: "ViewportCore \<Rightarrow> Host \<Rightarrow> ViewportCore \<times> Host" where
  "schedule_update vc host =
     (let (em, host') = scheduleRAF (next_closure vc) (eventManager vc) host
      in (vc\<lparr> eventManager := em, next_closure := Suc (next_closure vc) \<rparr>, host'))"

fun run_listener :: "listener \<Rightarrow> ViewportCore \<Rightarrow> Host \<Rightarrow> ViewportCore \<times> Host" where
  "run_listener DebouncedUpdate vc host =
     (let (tid, host') = debounced CallUpdateState (debounceDelay (config vc)) (timeoutId vc) host
      in (vc\<lparr> timeoutId := tid \<rparr>, host'))"
| "run_listener OrientationListener vc host = (vc, snd (setTimeout CallUpdateState 100 host))"
| "run_listener MediaQueryListener vc host = schedule_update vc host"

text \<open>The browser dispatches an event on a target: its listeners run in order.\<close>

definition dispatch :: "target \<Rightarrow> ViewportCore \<Rightarrow> Host \<Rightarrow> ViewportCore \<times> Host" where
  "dispatch t vc host =
     foldl (\<lambda>(vc', host') l. run_listener l vc' host') (vc, host)
       (map snd (filter (\<lambda>r. fst r = t) (registrations host)))"

text \<open>The \<open>ResizeObserver\<close> delivers a notification, if it is still observing.\<close>

definition resize_observed :: "ViewportCore \<Rightarrow> Host \<Rightarrow> ViewportCore \<times> Host" where
  "resize_observed vc host = (if observing host then schedule_update vc host else (vc, host))"

fun run_callbacks :: "handlers \<Rightarrow> Window option \<Rightarrow> nat list \<Rightarrow> ViewportCore \<Rightarrow> ViewportCore option" where
  "run_callbacks H w [] vc = Some vc"
| "run_callbacks H w (cb # cbs) vc =
     (case updateState H w vc of None \<Rightarrow> None | Some vc' \<Rightarrow> run_callbacks H w cbs vc')"

text \<open>
  The browser runs animation frame \<open>i\<close>: the closure \<open>scheduleRAF\<close> passed to
  \<open>requestAnimationFrame\<close> copies the pending callbacks, clears the set and the id,
  and calls each copy.
\<close>

definition run_frame :: "handlers \<Rightarrow> nat \<Rightarrow> ViewportCore \<Rightarrow> Host \<Rightarrow> (ViewportCore \<times> Host) option" where
  "run_frame H i vc host =
     (if i \<in> set (frames host)
      then (let host' = host\<lparr> frames := filter (\<lambda>f. f \<noteq> i) (frames host) \<rparr>;
                em = eventManager vc;
                callbacks = set_values (rafCallbacks em);
                em' = em\<lparr> rafCallbacks := set_clear (rafCallbacks em), rafId := None \<rparr>
            in do {
              vc' \<leftarrow> run_callbacks H (window host') callbacks (vc\<lparr> eventManager := em' \<rparr>);
              Some (vc', host')
            })
      else Some (vc, host))"

text \<open>Timer \<open>i\<close> expires: it leaves the pending timers and its callback runs.\<close>

definition run_timer :: "handlers \<Rightarrow> nat \<Rightarrow> ViewportCore \<Rightarrow> Host \<Rightarrow> (ViewportCore \<times> Host) option" where
  "run_timer H i vc host =
     (case find (\<lambda>t. fst t = i) (timers host) of
        None \<Rightarrow> Some (vc, host)
      | Some t \<Rightarrow>
          (let host' = host\<lparr> timers := filter (\<lambda>t. fst t \<noteq> i) (timers host) \<rparr>
           in do { vc' \<leftarrow> updateState H (window host') vc; Some (vc', host') }))"

subsection \<open>Runs\<close>

text \<open>
  What can happen to an engine and its host, one step at a time: the browser dispatches
  an event on a target, the \<open>ResizeObserver\<close> delivers, an animation frame or a timer
  runs, the viewport takes a new size, or the application calls the public interface.
\<close>

datatype step =
  Native target
  | Observed
  | Frame nat
  | Timeout nat
  | Viewport int int
  | Call_on EventType callback
  | Call_off EventType callback
  | Call_getState
  | Call_destroy

fun do_step :: "handlers \<Rightarrow> step \<Rightarrow> ViewportCore \<times> Host \<Rightarrow> (ViewportCore \<times> Host) option" where
  "do_step H (Native t) (vc, host) = Some (dispatch t vc host)"
| "do_step H Observed (vc, host) = Some (resize_observed vc host)"
| "do_step H (Frame i) (vc, host) = run_frame H i vc host"
| "do_step H (Timeout i) (vc, host) = run_timer H i vc host"
| "do_step H (Viewport w h) (vc, host) =
     Some (vc, host\<lparr> window :=
                      map_option (\<lambda>win. win\<lparr> innerWidth := w, innerHeight := h \<rparr>) (window host) \<rparr>)"
| "do_step H (Call_on ev cb) (vc, host) = Some (on ev cb vc, host)"
| "do_step H (Call_off ev cb) (vc, host) = Some (off ev cb vc, host)"
| "do_step H Call_getState (vc, host) =
     map_option (\<lambda>r. (snd r, host)) (getState H (window host) vc)"
| "do_step H Call_destroy (vc, host) = Some (destroy vc host)"

fun run :: "handlers \<Rightarrow> step list \<Rightarrow> ViewportCore \<times> Host \<Rightarrow> (ViewportCore \<times> Host) option" where
  "run H [] world = Some world"
| "run H (s # ss) world = (case do_step H s world of None \<Rightarrow> None | Some world' \<Rightarrow> run H ss world')"

text \<open>The kinds of the events one execution of \<open>updateState\<close> emits, in order.\<close>

definition cycle_events :: "handlers \<Rightarrow> Window option \<Rightarrow> ViewportCore \<Rightarrow> EventType list option" where
  "cycle_events H w vc =
     map_option
       (\<lambda>vc'. map fst (drop (length (emitted (eventManager vc))) (emitted (eventManager vc'))))
       (updateState H w vc)"

text \<open>
  The change events a recomputation owes, given the state before it (if any) and the
  state it computed: one for each of breakpoint, orientation and touch that differs.
\<close>

definition change_events :: "ViewportState option \<Rightarrow> ViewportState \<Rightarrow> (EventType \<times> arg list) list" where
  "change_events previous newState =
     (case previous of
        None \<Rightarrow> []
      | Some prev \<Rightarrow>
          (if breakpoint prev \<noteq> breakpoint newState
           then [(BreakpointChange, [NameArg (breakpoint newState), NameArg (breakpoint prev)])]
           else [])
          @ (if orientation prev \<noteq> orientation newState
             then [(OrientationChange, [OrientationArg (orientation newState)])] else [])
          @ (if isTouch prev \<noteq> isTouch newState
             then [(TouchChange, [FlagArg (isTouch newState)])] else []))"

section \<open>Example inputs\<close>

text \<open>The window of the test setup: 1024 by 768, no touch.\<close>


definition jsdom_window :: Window where
  "jsdom_window =
     \<lparr> innerWidth = 1024, innerHeight = 768, devicePixelRatio = 1,
       screen = Some \<lparr> availWidth = Some 1920, availHeight = Some 1040 \<rparr>,
       ontouchstart = False, maxTouchPoints = 0, msMaxTouchPoints = None,
       hasResizeObserver = True, hasVisualViewport = True \<rparr>"

definition table_sm_lg :: ViewportConfig where
  "table_sm_lg = empty_config\<lparr> opt_breakpoints := Some [(''sm'', 0), (''lg'', 900)] \<rparr>"

definition custom_md_500 :: ViewportConfig where
  "custom_md_500 = empty_config\<lparr> opt_customBreakpoints := Some [(''md'', 500)] \<rparr>"

definition custom_tiny :: ViewportConfig where
  "custom_tiny = empty_config\<lparr> opt_customBreakpoints := Some [(''tiny'', 0)] \<rparr>"

text \<open>
  Callbacks 1 and 2 subscribed to \<open>resize\<close>, in this order, and three tables of
  what the callbacks do: nothing; the first unsubscribes the second; the first subscribes
  a third.
\<close>

definition two_listeners :: EventManager where
  "two_listeners = EventManager_on Resize 2 (EventManager_on Resize 1 new_EventManager)"

definition no_actions :: handlers where
  "no_actions = (\<lambda>cb. [])"



text \<open>
  A browser showing that window with nothing registered yet, and the same browser
  without \<open>ResizeObserver\<close>.
\<close>

definition browser :: Host where
  "browser =
     \<lparr> window = Some jsdom_window, registrations = [], observing = False, timers = [],
       next_timer = 0, frames = [], next_frame = 0 \<rparr>"

definition legacy_browser :: Host where
  "legacy_browser = browser\<lparr> window := Some (jsdom_window\<lparr> hasResizeObserver := False \<rparr>) \<rparr>"

definition table_empty :: ViewportConfig where
  "table_empty = empty_config\<lparr> opt_breakpoints := Some [] \<rparr>"

text \<open>
  The engine constructed with no configuration in that browser, with subscribers that
  do nothing, and the window once it is 480 wide.
\<close>

definition started :: "(ViewportCore \<times> Host) option" where
  "started = new_ViewportCore no_actions empty_config browser"

definition narrow_window :: Window where
  "narrow_window = jsdom_window\<lparr> innerWidth := 480 \<rparr>"

definition legacy_started :: "(ViewportCore \<times> Host) option" where
  "legacy_started = new_ViewportCore no_actions empty_config legacy_browser"

text \<open>A first callback that unsubscribes itself and subscribes itself again.\<close>

definition resubscribes_itself :: handlers where
  "resubscribes_itself =
     (\<lambda>cb. if cb = 1 then [Unsubscribe Resize 1, Subscribe Resize 1] else [])"



section \<open>Objects, merging and stable sorting\<close>


lemma has_key_iff: "has_key k ps \<longleftrightarrow> k \<in> fst ` set ps"
  by (induction ps) auto

lemma map_fst_overwrite: "map fst (overwrite k v ps) = map fst ps"
  by (induction ps) auto

lemma map_of_overwrite:
  "map_of (overwrite k v ps) = (if has_key k ps then (map_of ps)(k \<mapsto> v) else map_of ps)"
  by (induction ps) (auto simp: fun_eq_iff)

lemma map_fst_put:
  "map fst (put ps kv) = (if fst kv \<in> fst ` set ps then map fst ps else map fst ps @ [fst kv])"
  by (simp add: put_def has_key_iff map_fst_overwrite)

lemma distinct_put: "distinct (map fst ps) \<Longrightarrow> distinct (map fst (put ps kv))"
  by (simp add: map_fst_put)

lemma map_of_put: "map_of (put ps kv) = (map_of ps)(fst kv \<mapsto> snd kv)"
proof (cases "has_key (fst kv) ps")
  case True
  then show ?thesis by (simp add: put_def map_of_overwrite)
next
  case False
  then have "map_of ps (fst kv) = None"
    by (simp add: has_key_iff map_of_eq_None_iff)
  then show ?thesis using False
    by (cases kv) (auto simp: put_def fun_eq_iff map_add_def split: option.splits)
qed

lemma distinct_foldl_put:
  "distinct (map fst ps) \<Longrightarrow> distinct (map fst (foldl put ps xs))"
  by (induction xs arbitrary: ps) (simp_all add: distinct_put)

lemma map_of_foldl_put:
  "map_of (foldl put ps xs) = map_of ps ++ map_of (rev xs)"
proof (induction xs arbitrary: ps)
  case Nil
  show ?case by simp
next
  case (Cons x xs)
  show ?case
    by (cases x) (auto simp: Cons map_of_put fun_eq_iff map_add_def split: option.splits)
qed

lemma prefix_foldl_put:
  "\<exists>zs. map fst (foldl put ps xs) = map fst ps @ zs"
proof (induction xs arbitrary: ps)
  case Nil
  show ?case by simp
next
  case (Cons x xs)
  obtain zs where "map fst (foldl put (put ps x) xs) = map fst (put ps x) @ zs"
    using Cons by blast
  then show ?case by (auto simp: map_fst_put)
qed

lemma foldl_put_distinct_id:
  "distinct (map fst (ps @ xs)) \<Longrightarrow> foldl put ps xs = ps @ xs"
proof (induction xs arbitrary: ps)
  case Nil
  show ?case by simp
next
  case (Cons x xs)
  have "put ps x = ps @ [x]"
    using Cons.prems by (auto simp: put_def has_key_iff)
  moreover have "distinct (map fst ((ps @ [x]) @ xs))"
    using Cons.prems by simp
  ultimately show ?case
    using Cons.IH [of "ps @ [x]"] by simp
qed

lemma distinct_props: "distinct (map fst (props xs))"
  by (simp add: props_def distinct_foldl_put)

lemma props_idem: "distinct (map fst ps) \<Longrightarrow> props ps = ps"
  using foldl_put_distinct_id [of "[]" ps] by (simp add: props_def)

lemma set_Object_entries: "set (Object_entries obj) = set (props obj)"
  by (auto simp: Object_entries_def Let_def)

lemma distinct_Object_entries: "distinct (map fst (Object_entries obj))"
  using distinct_props [of obj]
  by (auto simp: Object_entries_def Let_def distinct_map inj_on_def)


lemma map_of_Object_entries: "map_of (Object_entries obj) = map_of (props obj)"
  using distinct_Object_entries distinct_props set_Object_entries
  by (simp add: map_of_inject_set)

lemma map_of_rev_distinct:
  assumes "distinct (map fst xs)"
  shows "map_of (rev xs) = map_of xs"
proof -
  have "distinct (map fst (rev xs))" using assms by (metis distinct_rev rev_map)
  then show ?thesis using assms map_of_inject_set [of "rev xs" xs] by simp
qed

lemma distinct_spread: "distinct (map fst (spread a b))"
  by (simp add: spread_def distinct_foldl_put)

lemma get_prop_spread:
  "get_prop (spread a b) k = (case get_prop b k of Some v \<Rightarrow> Some v | None \<Rightarrow> get_prop a k)"
proof -
  have "map_of (spread a b) = (map_of (props a)) ++ (map_of (props b))"
    by (simp add: spread_def map_of_foldl_put map_of_rev_distinct distinct_Object_entries
        map_of_Object_entries)
  then show ?thesis
    by (simp add: get_prop_def props_idem distinct_spread map_add_def split: option.splits)
qed

lemma get_prop_entries:
  "get_prop obj k = Some v \<longleftrightarrow> (k, v) \<in> set (Object_entries obj)"
  by (simp add: get_prop_def set_Object_entries distinct_props)

lemma find_eq_filter:
  "find Q xs = (case filter Q xs of [] \<Rightarrow> None | x # _ \<Rightarrow> Some x)"
  by (induction xs) auto

lemma find_sort_key_least:
  assumes "find P (sort_key f xs) = Some p"
  shows "p \<in> set xs \<and> P p \<and> (\<forall>q\<in>set xs. P q \<longrightarrow> f p \<le> f q)"
proof -
  let ?S = "sort_key f xs"
  obtain i where i: "i < length ?S" "P (?S ! i)" "p = ?S ! i" "\<forall>j<i. \<not> P (?S ! j)"
    using assms unfolding find_Some_iff by blast
  have mem: "p \<in> set xs"
    using i(1,3) by (metis nth_mem set_sort)
  have least: "f p \<le> f q" if q: "q \<in> set xs" "P q" for q
  proof -
    from q(1) have "q \<in> set ?S" by simp
    then obtain j where j: "j < length ?S" "?S ! j = q"
      unfolding in_set_conv_nth by blast
    have "i \<le> j" using i(4) j q(2) by (metis not_le_imp_less)
    moreover have "sorted (map f ?S)" by (rule sorted_sort_key)
    ultimately have "map f ?S ! i \<le> map f ?S ! j"
      using j(1) by (simp add: sorted_iff_nth_mono)
    then show ?thesis using i(1,3) j by simp
  qed
  show ?thesis using mem i(2,3) least by blast
qed

lemma find_sort_key_first:
  assumes "find P (sort_key f xs) = Some p" and "\<And>q. f q = f p \<Longrightarrow> P q"
  shows "find (\<lambda>q. f q = f p) xs = Some p"
proof -
  let ?S = "sort_key f xs"
  obtain i where i: "i < length ?S" "P (?S ! i)" "p = ?S ! i" "\<forall>j<i. \<not> P (?S ! j)"
    using assms(1) unfolding find_Some_iff by blast
  have split: "?S = take i ?S @ p # drop (Suc i) ?S"
    using i(1,3) by (simp add: id_take_nth_drop)
  have "\<forall>q\<in>set (take i ?S). f q \<noteq> f p"
  proof
    fix q assume "q \<in> set (take i ?S)"
    then obtain j where "j < i" "q = ?S ! j"
      using i(1) unfolding in_set_conv_nth by auto
    then have "\<not> P q" using i(4) by simp
    then show "f q \<noteq> f p" using assms(2) by blast
  qed
  then have "filter (\<lambda>q. f q = f p) (take i ?S) = []"
    by (simp add: filter_empty_conv)
  then have "filter (\<lambda>q. f q = f p) ?S = p # filter (\<lambda>q. f q = f p) (drop (Suc i) ?S)"
    by (subst split) simp
  moreover have "filter (\<lambda>q. f q = f p) ?S = filter (\<lambda>q. f q = f p) xs"
    by (rule sort_key_stable)
  ultimately show ?thesis by (simp add: find_eq_filter)
qed

lemma hd_sort_key_least:
  assumes "sort_key f xs = p # ps"
  shows "p \<in> set xs \<and> (\<forall>q\<in>set xs. f p \<le> f q)"
proof -
  have "sorted (map f (p # ps))" using assms sorted_sort_key [of f xs] by simp
  moreover have "set xs = set (p # ps)" using assms set_sort [of f xs] by simp
  ultimately show ?thesis by auto
qed




lemma props_allBreakpoints: "props (allBreakpoints cfg) = allBreakpoints cfg"
  by (simp add: allBreakpoints_def props_idem distinct_spread)

lemma set_entries_allBreakpoints:
  "set (Object_entries (allBreakpoints cfg)) = set (allBreakpoints cfg)"
  by (simp add: set_Object_entries props_allBreakpoints)

lemma calculateBreakpoint_found:
  assumes "find (\<lambda>p. w \<ge> snd p) (sortedBreakpoints cfg) = Some p"
  shows "calculateBreakpoint cfg w = fst p \<and> p \<in> set (Object_entries (allBreakpoints cfg))
         \<and> snd p \<le> w
         \<and> (\<forall>q\<in>set (Object_entries (allBreakpoints cfg)). snd q \<le> w \<longrightarrow> snd q \<le> snd p)"
proof -
  have "p \<in> set (Object_entries (allBreakpoints cfg)) \<and> w \<ge> snd p
        \<and> (\<forall>q\<in>set (Object_entries (allBreakpoints cfg)). w \<ge> snd q \<longrightarrow> - snd p \<le> - snd q)"
    using find_sort_key_least [of "\<lambda>p. w \<ge> snd p" "\<lambda>p. - snd p" _ p] assms
    unfolding sortedBreakpoints_def by blast
  then show ?thesis using assms by (simp add: calculateBreakpoint_def)
qed

lemma calculateBreakpoint_not_found:
  assumes "find (\<lambda>p. w \<ge> snd p) (sortedBreakpoints cfg) = None"
    and "allBreakpoints cfg \<noteq> []"
  shows "\<exists>p. calculateBreakpoint cfg w = fst p \<and> p \<in> set (Object_entries (allBreakpoints cfg))
         \<and> (\<forall>q\<in>set (Object_entries (allBreakpoints cfg)). \<not> snd q \<le> w \<and> snd p \<le> snd q)"
proof -
  let ?E = "Object_entries (allBreakpoints cfg)"
  have none: "\<forall>q\<in>set ?E. \<not> snd q \<le> w"
    using assms(1) unfolding sortedBreakpoints_def find_None_iff by auto
  have "set ?E \<noteq> {}" using assms(2) by (simp add: set_entries_allBreakpoints)
  then have "sort_key snd ?E \<noteq> []" by (metis set_sort set_empty)
  then obtain p ps where ps: "sort_key snd ?E = p # ps" by (cases "sort_key snd ?E") auto
  then have "p \<in> set ?E \<and> (\<forall>q\<in>set ?E. snd p \<le> snd q)" by (rule hd_sort_key_least)
  moreover have "calculateBreakpoint cfg w = fst p"
    using assms(1) ps by (simp add: calculateBreakpoint_def)
  ultimately show ?thesis using none by blast
qed

section \<open>Ties between thresholds\<close>


lemma keys_normalised:
  "fst ` set (foldl put [] (Object_entries a)) = fst ` set (props a)"
proof -
  have "map_of (foldl put [] (Object_entries a)) = map_of (props a)"
    by (simp add: map_of_foldl_put map_of_rev_distinct distinct_Object_entries
        map_of_Object_entries)
  then have "dom (map_of (foldl put [] (Object_entries a))) = dom (map_of (props a))"
    by simp
  then show ?thesis by (simp only: dom_map_of_conv_image_fst)
qed

lemma Object_entries_spread:
  "Object_entries (spread a b) =
     sort_key (\<lambda>p. dec_val (fst p)) (filter (\<lambda>p. is_array_index (fst p)) (spread a b))
     @ filter (\<lambda>p. \<not> is_array_index (fst p)) (spread a b)"
  by (simp add: Object_entries_def props_idem distinct_spread Let_def)

lemma find_append:
  "find Q (xs @ ys) = (case find Q xs of None \<Rightarrow> find Q ys | Some x \<Rightarrow> Some x)"
  by (induction xs) auto

lemma spread_order:
  assumes d: "d \<in> fst ` set (props a)" and c: "c \<notin> fst ` set (props a)"
    and dS: "(d, td) \<in> set (spread a b)" and cS: "(c, tc) \<in> set (spread a b)"
    and nd: "\<not> is_array_index d" and nc: "\<not> is_array_index c"
  shows "\<exists>xs ys. Object_entries (spread a b) = xs @ (d, td) # ys \<and> (c, tc) \<in> set ys"
proof -
  let ?A = "foldl put [] (Object_entries a)"
  let ?S = "spread a b"
  let ?n = "length ?A"
  let ?N = "\<lambda>p. \<not> is_array_index (fst p)"
  obtain zs where zs: "map fst ?S = map fst ?A @ zs"
    using prefix_foldl_put [of ?A "Object_entries b"] by (auto simp: spread_def)
  have dist: "distinct (map fst ?A @ zs)"
    using distinct_spread [of a b] zs by simp
  have k1: "map fst (take ?n ?S) = map fst ?A"
    using zs by (simp add: take_map [symmetric])
  have k2: "map fst (drop ?n ?S) = zs"
    using zs by (simp add: drop_map [symmetric])
  have dA: "d \<in> set (map fst ?A)" and cA: "c \<notin> set (map fst ?A)"
    using d c keys_normalised [of a] by auto
  have S: "?S = take ?n ?S @ drop ?n ?S" by simp
  have d1: "(d, td) \<in> set (take ?n ?S)"
  proof (rule ccontr)
    assume "(d, td) \<notin> set (take ?n ?S)"
    then have "(d, td) \<in> set (drop ?n ?S)" using dS S by (metis Un_iff set_append)
    then have "d \<in> set zs" using k2 by force
    then show False using dist dA by auto
  qed
  have c2: "(c, tc) \<in> set (drop ?n ?S)"
  proof (rule ccontr)
    assume "(c, tc) \<notin> set (drop ?n ?S)"
    then have "(c, tc) \<in> set (take ?n ?S)" using cS S by (metis Un_iff set_append)
    then have "c \<in> set (map fst (take ?n ?S))" by force
    then show False using cA k1 by simp
  qed
  have "(d, td) \<in> set (filter ?N (take ?n ?S))" using d1 nd by simp
  then obtain us vs where uv: "filter ?N (take ?n ?S) = us @ (d, td) # vs"
    by (meson split_list)
  have "filter ?N ?S = filter ?N (take ?n ?S) @ filter ?N (drop ?n ?S)"
    by (metis S filter_append)
  then have "filter ?N ?S = us @ (d, td) # (vs @ filter ?N (drop ?n ?S))"
    using uv by simp
  then have "Object_entries ?S =
      (sort_key (\<lambda>p. dec_val (fst p)) (filter (\<lambda>p. is_array_index (fst p)) ?S) @ us)
      @ (d, td) # (vs @ filter ?N (drop ?n ?S))"
    by (simp only: Object_entries_spread append_assoc)
  moreover have "(c, tc) \<in> set (vs @ filter ?N (drop ?n ?S))" using c2 nc by simp
  ultimately show ?thesis by blast
qed

lemma tie_first_enumerated:
  assumes d: "(d, t) \<in> set (Object_entries (allBreakpoints cfg))" and w: "t \<le> w"
    and mx: "\<forall>q\<in>set (Object_entries (allBreakpoints cfg)). snd q \<le> w \<longrightarrow> snd q \<le> t"
  shows "find (\<lambda>q. snd q = t) (Object_entries (allBreakpoints cfg))
         = Some (calculateBreakpoint cfg w, t)"
proof -
  let ?E = "Object_entries (allBreakpoints cfg)"
  have "(d, t) \<in> set (sortedBreakpoints cfg)" using d by (simp add: sortedBreakpoints_def)
  then have "find (\<lambda>p. w \<ge> snd p) (sortedBreakpoints cfg) \<noteq> None"
    using w unfolding find_None_iff by force
  then obtain p where p: "find (\<lambda>p. w \<ge> snd p) (sortedBreakpoints cfg) = Some p" by blast
  have f: "calculateBreakpoint cfg w = fst p" "p \<in> set ?E" "snd p \<le> w"
      "\<forall>q\<in>set ?E. snd q \<le> w \<longrightarrow> snd q \<le> snd p"
    using calculateBreakpoint_found [OF p] by blast+
  have "t \<le> snd p" using f(4) d w by force
  moreover have "snd p \<le> t" using mx f(2,3) by blast
  ultimately have t: "snd p = t" by simp
  have "find (\<lambda>q. - snd q = - snd p) ?E = Some p"
    using find_sort_key_first [of "\<lambda>p. w \<ge> snd p" "\<lambda>p. - snd p" ?E p] p f(3)
    unfolding sortedBreakpoints_def by simp
  then have "find (\<lambda>q. snd q = t) ?E = Some p" using t by simp
  moreover have "p = (calculateBreakpoint cfg w, t)" using f(1) t by (cases p) simp
  ultimately show ?thesis by simp
qed

lemma find_before:
  assumes "find Q (xs @ x # ys) = Some p" and "Q x"
  shows "p \<in> set (xs @ [x])"
proof (cases "find Q xs")
  case None
  then show ?thesis using assms by (simp add: find_append)
next
  case (Some q)
  then have "q \<in> set xs" unfolding find_Some_iff by auto
  then show ?thesis using assms Some by (simp add: find_append)
qed

lemma tie_later_loses:
  assumes E: "Object_entries (allBreakpoints cfg) = xs @ (d, t) # ys" and c: "(c, t) \<in> set ys"
    and w: "t \<le> w"
    and mx: "\<forall>q\<in>set (Object_entries (allBreakpoints cfg)). snd q \<le> w \<longrightarrow> snd q \<le> t"
  shows "calculateBreakpoint cfg w \<noteq> c"
proof
  assume eq: "calculateBreakpoint cfg w = c"
  have "(d, t) \<in> set (Object_entries (allBreakpoints cfg))" using E by simp
  then have "find (\<lambda>q. snd q = t) (Object_entries (allBreakpoints cfg))
      = Some (calculateBreakpoint cfg w, t)"
    using w mx by (rule tie_first_enumerated)
  then have "find (\<lambda>q. snd q = t) (xs @ (d, t) # ys) = Some (c, t)"
    using eq E by simp
  then have "(c, t) \<in> set (xs @ [(d, t)])" by (rule find_before) simp
  then have "c \<in> fst ` set (xs @ [(d, t)])" by force
  moreover have "c \<in> fst ` set ys" using c by force
  moreover have "distinct (map fst (xs @ (d, t) # ys))"
    using distinct_Object_entries [of "allBreakpoints cfg"] E by simp
  ultimately show False by auto
qed

section \<open>Emission over a live set\<close>


lemma set_values_Nil [simp]: "set_values [] = []"
  by (simp add: set_values_def)

lemma set_values_Cons [simp]:
  "set_values (e # s) = (case e of None \<Rightarrow> set_values s | Some x \<Rightarrow> x # set_values s)"
  by (simp add: set_values_def split: option.splits)

lemma set_values_append [simp]: "set_values (s @ t) = set_values s @ set_values t"
  by (simp add: set_values_def)

lemma set_set_values: "set (set_values s) = {x. Some x \<in> set s}"
  by (induction s) (auto split: option.splits)

lemma set_values_delete: "set_values (set_delete s x) = filter (\<lambda>y. y \<noteq> x) (set_values s)"
  by (induction s) (auto simp: set_delete_def split: option.splits)

lemma length_set_delete [simp]: "length (set_delete s x) = length s"
  by (simp add: set_delete_def)



lemma run_actions_quiet:
  "list_all (\<lambda>act. act = Throw) as \<Longrightarrow>
   store (run_actions ev as em) = store em \<and> listeners (run_actions ev as em) = listeners em
   \<and> invoked (run_actions ev as em) = invoked em"
  by (cases as) auto

lemma call_listener_quiet:
  assumes "quiet H cb"
  shows "store (call_listener H ev args cb em) = store em"
    and "listeners (call_listener H ev args cb em) = listeners em"
    and "invoked (call_listener H ev args cb em) = invoked em @ [(cb, ev, args)]"
  using assms run_actions_quiet [of "H cb" ev "em\<lparr> invoked := invoked em @ [(cb, ev, args)] \<rparr>"]
  by (simp_all add: quiet_def call_listener_def)

lemma forEach_quiet_from:
  assumes "list_all (quiet H) (set_values (drop i (store em a)))"
  shows "\<exists>em'. forEach_listener H ev args a i em = Some em'
          \<and> invoked em' = invoked em @ map (\<lambda>cb. (cb, ev, args)) (set_values (drop i (store em a)))
          \<and> store em' = store em \<and> listeners em' = listeners em"
  using assms
proof (induction "length (store em a) - i" arbitrary: i em)
  case 0
  then have "\<not> i < length (store em a)" by simp
  then show ?case by (subst forEach_listener.simps) simp
next
  case (Suc n)
  then have i: "i < length (store em a)" by simp
  then have dr: "drop i (store em a) = store em a ! i # drop (Suc i) (store em a)"
    by (simp add: Cons_nth_drop_Suc)
  show ?case
  proof (cases "store em a ! i")
    case None
    have "n = length (store em a) - Suc i" using Suc.hyps(2) by simp
    moreover have "list_all (quiet H) (set_values (drop (Suc i) (store em a)))"
      using Suc.prems dr None by simp
    ultimately obtain em' where "forEach_listener H ev args a (Suc i) em = Some em'"
        "invoked em' = invoked em @ map (\<lambda>cb. (cb, ev, args)) (set_values (drop (Suc i) (store em a)))"
        "store em' = store em" "listeners em' = listeners em"
      using Suc.hyps(1) by blast
    then show ?thesis using i None dr by (subst forEach_listener.simps) simp
  next
    case (Some cb)
    let ?em1 = "call_listener H ev args cb em"
    have q: "quiet H cb" using Suc.prems dr Some by simp
    have st: "store ?em1 = store em" "listeners ?em1 = listeners em"
        "invoked ?em1 = invoked em @ [(cb, ev, args)]"
      using call_listener_quiet [OF q] by simp_all
    have "n = length (store ?em1 a) - Suc i" using Suc.hyps(2) st by simp
    moreover have "list_all (quiet H) (set_values (drop (Suc i) (store ?em1 a)))"
      using Suc.prems dr Some st by simp
    ultimately obtain em' where "forEach_listener H ev args a (Suc i) ?em1 = Some em'"
        "invoked em' = invoked ?em1 @ map (\<lambda>cb. (cb, ev, args)) (set_values (drop (Suc i) (store ?em1 a)))"
        "store em' = store ?em1" "listeners em' = listeners ?em1"
      using Suc.hyps(1) by blast
    then show ?thesis using i Some dr st by (subst forEach_listener.simps) simp
  qed
qed












section \<open>Evaluation\<close>

lemmas object_defs =
  put_def props_def Object_entries_def get_prop_def spread_def is_array_index_def is_digit_def
  dec_val_def

lemmas config_defs =
  DEFAULT_BREAKPOINTS_def DEFAULT_CONFIG_def merge_config_def empty_config_def nullish_def
  default_md_def default_lg_def

lemmas classify_defs =
  calculateIsMobile_def calculateIsTablet_def allBreakpoints_def sortedBreakpoints_def
  calculateBreakpoint_def calculateState_def detectTouch_def

lemma default_md_768: "default_md = 768"
  by (simp add: object_defs config_defs)

lemma default_lg_992: "default_lg = 992"
  by (simp add: object_defs config_defs)

lemmas manager_defs =
  new_EventManager_def EventManager_on_def EventManager_off_def call_listener_def emit_def
  emit_calls_def registered_def quiet_def set_add_def set_delete_def set_size_def set_clear_def

lemmas host_defs =
  addEventListener_def setTimeout_def clearTimeout_def requestAnimationFrame_def
  cancelAnimationFrame_def scheduleRAF_def debounced_def EventManager_destroy_def

lemmas core_defs =
  emitChangeEvents_def updateState_def getState_def on_def off_def destroy_def
  setupEventListeners_def setupMediaQueries_def initialize_def new_ViewportCore_def
  schedule_update_def
  dispatch_def resize_observed_def run_frame_def run_timer_def cycle_events_def

lemmas example_defs =
  browser_def legacy_browser_def jsdom_window_def narrow_window_def no_actions_def started_def
  legacy_started_def table_empty_def

lemmas all_defs =
  core_defs host_defs manager_defs classify_defs config_defs object_defs example_defs

section \<open>Recomputation\<close>



lemma emitted_on [simp]: "emitted (EventManager_on e cb em) = emitted em"
  by (simp add: EventManager_on_def split: option.splits)

lemma emitted_off [simp]: "emitted (EventManager_off e cb em) = emitted em"
  by (simp add: EventManager_off_def Let_def split: option.splits)

lemma emitted_run_actions [simp]: "emitted (run_actions ev as em) = emitted em"
  by (induction ev as em rule: run_actions.induct) simp_all

lemma emitted_call_listener [simp]: "emitted (call_listener H ev args cb em) = emitted em"
  by (simp add: call_listener_def)

lemma emitted_forEach:
  assumes "forEach_listener H ev args a i em = Some em'"
  shows "emitted em' = emitted em"
proof (rule forEach_listener.raw_induct
    [where P = "\<lambda>H ev args a i em em'. emitted em' = emitted em", OF _ assms])
  fix f :: "handlers \<Rightarrow> EventType \<Rightarrow> arg list \<Rightarrow> addr \<Rightarrow> nat \<Rightarrow> EventManager \<Rightarrow> EventManager option"
  fix H ev args a i em em'
  assume IH: "\<And>H ev args a i em y. f H ev args a i em = Some y \<Longrightarrow> emitted y = emitted em"
    and eq: "(if i < length (store em a)
              then case store em a ! i of
                     None \<Rightarrow> f H ev args a (Suc i) em
                   | Some cb \<Rightarrow> f H ev args a (Suc i) (call_listener H ev args cb em)
              else Some em) = Some em'"
  show "emitted em' = emitted em"
  proof (cases "i < length (store em a)")
    case False
    then show ?thesis using eq by simp
  next
    case True
    show ?thesis
    proof (cases "store em a ! i")
      case None
      then have "f H ev args a (Suc i) em = Some em'" using eq True by simp
      then show ?thesis by (rule IH)
    next
      case (Some cb)
      then have "f H ev args a (Suc i) (call_listener H ev args cb em) = Some em'"
        using eq True by simp
      then have "emitted em' = emitted (call_listener H ev args cb em)" by (rule IH)
      then show ?thesis by simp
    qed
  qed
qed

lemma emit_emitted:
  "emit H ev args em = Some em' \<Longrightarrow> emitted em' = emitted em @ [(ev, args)]"
  by (auto simp: emit_def Let_def split: option.splits dest: emitted_forEach)


lemma emitChangeEvents_emitted:
  assumes "emitChangeEvents H prev new em = Some em'"
  shows "emitted em' = emitted em @ change_events (Some prev) new"
proof -
  obtain em1 em2 where
    e1: "(if breakpoint prev \<noteq> breakpoint new
          then emit H BreakpointChange [NameArg (breakpoint new), NameArg (breakpoint prev)] em
          else Some em) = Some em1"
    and e2: "(if orientation prev \<noteq> orientation new
          then emit H OrientationChange [OrientationArg (orientation new)] em1
          else Some em1) = Some em2"
    and e3: "(if isTouch prev \<noteq> isTouch new
          then emit H TouchChange [FlagArg (isTouch new)] em2
          else Some em2) = Some em'"
    using assms unfolding emitChangeEvents_def by (auto simp: bind_eq_Some_conv)
  have "emitted em1 = emitted em
      @ (if breakpoint prev \<noteq> breakpoint new
         then [(BreakpointChange, [NameArg (breakpoint new), NameArg (breakpoint prev)])] else [])"
    using e1 by (auto split: if_splits dest: emit_emitted)
  moreover have "emitted em2 = emitted em1
      @ (if orientation prev \<noteq> orientation new
         then [(OrientationChange, [OrientationArg (orientation new)])] else [])"
    using e2 by (auto split: if_splits dest: emit_emitted)
  moreover have "emitted em' = emitted em2
      @ (if isTouch prev \<noteq> isTouch new then [(TouchChange, [FlagArg (isTouch new)])] else [])"
    using e3 by (auto split: if_splits dest: emit_emitted)
  ultimately show ?thesis by (simp add: change_events_def)
qed

lemma updateState_emitted:
  assumes "\<not> isDestroyed vc" and "updateState H (Some win) vc = Some vc'"
  shows "emitted (eventManager vc') = emitted (eventManager vc)
           @ change_events (currentState vc) (calculateState (config vc) win)
           @ [(Resize, [StateArg (calculateState (config vc) win)])]"
proof -
  let ?new = "calculateState (config vc) win"
  let ?vc1 = "vc\<lparr> currentState := Some ?new, updates := Suc (updates vc) \<rparr>"
  let ?first = "case currentState vc of
            None \<Rightarrow> Some (eventManager ?vc1)
          | Some prev \<Rightarrow> emitChangeEvents H prev ?new (eventManager ?vc1)"
  have "?first \<bind> (\<lambda>em1. emit H Resize [StateArg ?new] em1
          \<bind> (\<lambda>em2. Some (?vc1\<lparr> eventManager := em2 \<rparr>))) = Some vc'"
    using assms by (simp add: updateState_def Let_def)
  then obtain em1 em2 where e1: "?first = Some em1"
    and e2: "emit H Resize [StateArg ?new] em1 = Some em2"
    and vc': "vc' = ?vc1\<lparr> eventManager := em2 \<rparr>"
    by (auto simp: bind_eq_Some_conv)
  have "emitted em1 = emitted (eventManager vc) @ change_events (currentState vc) ?new"
  proof (cases "currentState vc")
    case None
    then show ?thesis using e1 by (auto simp: change_events_def)
  next
    case (Some prev)
    then have "emitChangeEvents H prev ?new (eventManager vc) = Some em1" using e1 by simp
    then show ?thesis using Some by (simp add: emitChangeEvents_emitted)
  qed
  moreover have "emitted em2 = emitted em1 @ [(Resize, [StateArg ?new])]"
    using e2 by (rule emit_emitted)
  ultimately show ?thesis using vc' by simp
qed

lemma change_events_no_resize: "Resize \<notin> fst ` set (change_events previous new)"
  by (auto simp: change_events_def split: option.splits if_splits)

lemma emit_quiet_total:
  assumes "\<forall>e. list_all (quiet H) (registered em e)"
  shows "\<exists>em'. emit H ev args em = Some em' \<and> (\<forall>e. registered em' e = registered em e)"
proof (cases "listeners em ev")
  case None
  then show ?thesis by (simp add: emit_def registered_def split: option.splits)
next
  case (Some a)
  let ?em0 = "em\<lparr> emitted := emitted em @ [(ev, args)] \<rparr>"
  have "list_all (quiet H) (registered em ev)" using assms by blast
  then have "list_all (quiet H) (set_values (drop 0 (store ?em0 a)))"
    using Some by (simp add: registered_def)
  then obtain em' where "forEach_listener H ev args a 0 ?em0 = Some em'"
      "store em' = store ?em0" "listeners em' = listeners ?em0"
    using forEach_quiet_from [of H 0 ?em0 a ev args] by blast
  then show ?thesis using Some by (simp add: emit_def registered_def split: option.splits)
qed

lemma emit_if_total:
  assumes "\<forall>e. list_all (quiet H) (registered em e)"
  shows "\<exists>em'. (if b then emit H ev args em else Some em) = Some em'
          \<and> (\<forall>e. registered em' e = registered em e)"
  using emit_quiet_total [OF assms, of ev args] by (cases b) simp_all

lemma emitChangeEvents_total:
  assumes "\<forall>e. list_all (quiet H) (registered em e)"
  shows "\<exists>em'. emitChangeEvents H prev new em = Some em'
          \<and> (\<forall>e. registered em' e = registered em e)"
proof -
  obtain em1 where e1: "(if breakpoint prev \<noteq> breakpoint new
          then emit H BreakpointChange [NameArg (breakpoint new), NameArg (breakpoint prev)] em
          else Some em) = Some em1" "\<forall>e. registered em1 e = registered em e"
    using emit_if_total [OF assms] by blast
  have q1: "\<forall>e. list_all (quiet H) (registered em1 e)" using assms e1(2) by simp
  obtain em2 where e2: "(if orientation prev \<noteq> orientation new
          then emit H OrientationChange [OrientationArg (orientation new)] em1
          else Some em1) = Some em2" "\<forall>e. registered em2 e = registered em1 e"
    using emit_if_total [OF q1] by blast
  have q2: "\<forall>e. list_all (quiet H) (registered em2 e)" using q1 e2(2) by simp
  obtain em3 where e3: "(if isTouch prev \<noteq> isTouch new
          then emit H TouchChange [FlagArg (isTouch new)] em2
          else Some em2) = Some em3" "\<forall>e. registered em3 e = registered em2 e"
    using emit_if_total [OF q2] by blast
  have "emitChangeEvents H prev new em = Some em3"
    using e1(1) e2(1) e3(1) unfolding emitChangeEvents_def by simp
  then show ?thesis using e1(2) e2(2) e3(2) by simp
qed

lemma updateState_total:
  assumes "\<forall>e. list_all (quiet H) (registered (eventManager vc) e)"
  shows "\<exists>vc'. updateState H w vc = Some vc'
          \<and> (\<forall>e. registered (eventManager vc') e = registered (eventManager vc) e)"
proof (cases "w = None \<or> isDestroyed vc")
  case True
  then show ?thesis by (auto simp: updateState_def split: option.splits)
next
  case False
  then obtain win where w: "w = Some win" and live: "\<not> isDestroyed vc" by auto
  let ?new = "calculateState (config vc) win"
  let ?vc1 = "vc\<lparr> currentState := Some ?new, updates := Suc (updates vc) \<rparr>"
  let ?first = "case currentState vc of
            None \<Rightarrow> Some (eventManager ?vc1)
          | Some prev \<Rightarrow> emitChangeEvents H prev ?new (eventManager ?vc1)"
  have "\<exists>em1. ?first = Some em1 \<and> (\<forall>e. registered em1 e = registered (eventManager vc) e)"
  proof (cases "currentState vc")
    case None
    then show ?thesis by simp
  next
    case (Some prev)
    then show ?thesis using emitChangeEvents_total [OF assms, of prev ?new] by simp
  qed
  then obtain em1 where e1: "?first = Some em1"
      "\<forall>e. registered em1 e = registered (eventManager vc) e"
    by blast
  have "\<forall>e. list_all (quiet H) (registered em1 e)" using assms e1(2) by simp
  then obtain em2 where e2: "emit H Resize [StateArg ?new] em1 = Some em2"
      "\<forall>e. registered em2 e = registered em1 e"
    using emit_quiet_total by blast
  have "updateState H w vc = Some (?vc1\<lparr> eventManager := em2 \<rparr>)"
    using w live e1(1) e2(1) by (simp add: updateState_def Let_def)
  then show ?thesis using e1(2) e2(2) by simp
qed

section \<open>An emission that does not return\<close>

text \<open>
  With the callbacks 1 and 2 registered, a first callback that unsubscribes and
  subscribes itself is appended to the set each time it is called, and the walk never
  reaches the end of the set.
\<close>


lemma resubscribe_step:
  assumes l: "listeners em Resize = Some a" and two: "Some 2 \<in> set (store em a)"
  shows "listeners (call_listener resubscribes_itself Resize args 1 em) Resize = Some a"
    and "store (call_listener resubscribes_itself Resize args 1 em) a
         = set_delete (store em a) 1 @ [Some 1]"
proof -
  have "2 \<in> set (set_values (set_delete (store em a) 1))"
    using two by (simp add: set_values_delete set_set_values)
  then have sz: "set_size (set_delete (store em a) 1) \<noteq> 0"
    by (auto simp: set_size_def)
  have n1: "Some 1 \<notin> set (set_delete (store em a) 1)"
    by (auto simp: set_delete_def)
  show "listeners (call_listener resubscribes_itself Resize args 1 em) Resize = Some a"
    using l sz
    by (simp add: call_listener_def resubscribes_itself_def EventManager_off_def
        EventManager_on_def Let_def)
  show "store (call_listener resubscribes_itself Resize args 1 em) a
         = set_delete (store em a) 1 @ [Some 1]"
    using l sz n1
    by (simp add: call_listener_def resubscribes_itself_def EventManager_off_def
        EventManager_on_def Let_def set_add_def)
qed

lemma resubscribe_never_returns:
  assumes "forEach_listener H ev args a i em = Some em'"
  shows "\<not> (H = resubscribes_itself \<and> ev = Resize \<and> listeners em Resize = Some a
            \<and> Some 2 \<in> set (store em a) \<and> Some 1 \<in> set (drop i (store em a))
            \<and> set (store em a) \<subseteq> {None, Some 1, Some 2})"
proof (rule forEach_listener.raw_induct
    [where P = "\<lambda>H ev args a i em em'.
       \<not> (H = resubscribes_itself \<and> ev = Resize \<and> listeners em Resize = Some a
            \<and> Some 2 \<in> set (store em a) \<and> Some 1 \<in> set (drop i (store em a))
            \<and> set (store em a) \<subseteq> {None, Some 1, Some 2})", OF _ assms])
  fix f :: "handlers \<Rightarrow> EventType \<Rightarrow> arg list \<Rightarrow> addr \<Rightarrow> nat \<Rightarrow> EventManager \<Rightarrow> EventManager option"
  fix H ev args a i em em'
  assume IH: "\<And>H ev args a i em y. f H ev args a i em = Some y \<Longrightarrow>
      \<not> (H = resubscribes_itself \<and> ev = Resize \<and> listeners em Resize = Some a
            \<and> Some 2 \<in> set (store em a) \<and> Some 1 \<in> set (drop i (store em a))
            \<and> set (store em a) \<subseteq> {None, Some 1, Some 2})"
    and eq: "(if i < length (store em a)
              then case store em a ! i of
                     None \<Rightarrow> f H ev args a (Suc i) em
                   | Some cb \<Rightarrow> f H ev args a (Suc i) (call_listener H ev args cb em)
              else Some em) = Some em'"
  show "\<not> (H = resubscribes_itself \<and> ev = Resize \<and> listeners em Resize = Some a
            \<and> Some 2 \<in> set (store em a) \<and> Some 1 \<in> set (drop i (store em a))
            \<and> set (store em a) \<subseteq> {None, Some 1, Some 2})"
  proof
    assume inv: "H = resubscribes_itself \<and> ev = Resize \<and> listeners em Resize = Some a
            \<and> Some 2 \<in> set (store em a) \<and> Some 1 \<in> set (drop i (store em a))
            \<and> set (store em a) \<subseteq> {None, Some 1, Some 2}"
    then have i: "i < length (store em a)" by (cases "i < length (store em a)") auto
    then have dr: "drop i (store em a) = store em a ! i # drop (Suc i) (store em a)"
      by (simp add: Cons_nth_drop_Suc)
    have slot: "store em a ! i \<in> {None, Some 1, Some 2}" using inv i by (meson nth_mem subsetD)
    show False
    proof (cases "store em a ! i = Some 1")
      case True
      let ?em2 = "call_listener resubscribes_itself Resize args 1 em"
      have run: "f resubscribes_itself Resize args a (Suc i) ?em2 = Some em'"
        using eq i True inv by simp
      have st: "listeners ?em2 Resize = Some a"
          "store ?em2 a = set_delete (store em a) 1 @ [Some 1]"
        using resubscribe_step [of em a args] inv by simp_all
      have "Some 2 \<in> set (store ?em2 a)" using inv st(2) by (auto simp: set_delete_def)
      moreover have "Some 1 \<in> set (drop (Suc i) (store ?em2 a))" using st(2) i by simp
      moreover have "set (store ?em2 a) \<subseteq> {None, Some 1, Some 2}"
        using inv st(2) by (auto simp: set_delete_def)
      ultimately show False using IH [OF run] st(1) by simp
    next
      case False
      then have "store em a ! i = None \<or> store em a ! i = Some 2" using slot by auto
      then have "f resubscribes_itself Resize args a (Suc i) em = Some em'
          \<or> f resubscribes_itself Resize args a (Suc i)
               (call_listener resubscribes_itself Resize args 2 em) = Some em'"
        using eq i inv by auto
      moreover have "Some 1 \<in> set (drop (Suc i) (store em a))" using inv dr False by auto
      moreover have "quiet resubscribes_itself 2"
        by (simp add: quiet_def resubscribes_itself_def)
      ultimately show False
        using IH [of resubscribes_itself Resize args a "Suc i" em em']
          IH [of resubscribes_itself Resize args a "Suc i"
              "call_listener resubscribes_itself Resize args 2 em" em']
          inv call_listener_quiet [of resubscribes_itself 2 Resize args em]
        by auto
    qed
  qed
qed

lemma emit_may_not_return: "emit resubscribes_itself Resize [] two_listeners = None"
proof (cases "emit resubscribes_itself Resize [] two_listeners")
  case None
  then show ?thesis .
next
  case (Some em')
  let ?em0 = "two_listeners\<lparr> emitted := emitted two_listeners @ [(Resize, [])] \<rparr>"
  have l: "listeners ?em0 Resize = Some 0" and s: "store ?em0 0 = [Some 1, Some 2]"
    by (simp_all add: two_listeners_def new_EventManager_def EventManager_on_def set_add_def)
  have "forEach_listener resubscribes_itself Resize [] 0 0 ?em0 = Some em'"
    using Some l by (simp add: emit_def Let_def)
  then have "\<not> (listeners ?em0 Resize = Some 0
            \<and> Some 2 \<in> set (store ?em0 0) \<and> Some 1 \<in> set (drop 0 (store ?em0 0))
            \<and> set (store ?em0 0) \<subseteq> {None, Some 1, Some 2})"
    using resubscribe_never_returns by blast
  then show ?thesis using l s by simp
qed

section \<open>After destruction\<close>












section \<open>Claims on classification\<close>

text \<open>
  C8. For every width and every non-empty merged breakpoint table,
  \<open>calculateBreakpoint\<close> returns a name of the table whose threshold is the greatest
  threshold at or below the width, the boundary included; when no threshold is at or
  below the width, it returns a name whose threshold is the smallest of the table.
\<close>

theorem calculateBreakpoint_greatest_threshold:
  assumes "allBreakpoints cfg \<noteq> []"
  shows "\<exists>t. get_prop (allBreakpoints cfg) (calculateBreakpoint cfg w) = Some t \<and>
           (if \<exists>n v. get_prop (allBreakpoints cfg) n = Some v \<and> v \<le> w
            then t \<le> w \<and> (\<forall>n v. get_prop (allBreakpoints cfg) n = Some v \<and> v \<le> w \<longrightarrow> v \<le> t)
            else (\<forall>n v. get_prop (allBreakpoints cfg) n = Some v \<longrightarrow> t \<le> v))"
proof (cases "find (\<lambda>p. w \<ge> snd p) (sortedBreakpoints cfg)")
  case None
  obtain p where p: "calculateBreakpoint cfg w = fst p"
      "p \<in> set (Object_entries (allBreakpoints cfg))"
      "\<forall>q\<in>set (Object_entries (allBreakpoints cfg)). \<not> snd q \<le> w \<and> snd p \<le> snd q"
    using calculateBreakpoint_not_found [OF None assms] by blast
  have "get_prop (allBreakpoints cfg) (calculateBreakpoint cfg w) = Some (snd p)"
    using p(1,2) by (simp add: get_prop_entries)
  moreover have "\<not> (\<exists>n v. get_prop (allBreakpoints cfg) n = Some v \<and> v \<le> w)"
    using p(3) by (fastforce simp: get_prop_entries)
  moreover have "\<forall>n v. get_prop (allBreakpoints cfg) n = Some v \<longrightarrow> snd p \<le> v"
    using p(3) by (fastforce simp: get_prop_entries)
  ultimately show ?thesis by simp
next
  case (Some p)
  have p: "calculateBreakpoint cfg w = fst p" "p \<in> set (Object_entries (allBreakpoints cfg))"
      "snd p \<le> w"
      "\<forall>q\<in>set (Object_entries (allBreakpoints cfg)). snd q \<le> w \<longrightarrow> snd q \<le> snd p"
    using calculateBreakpoint_found [OF Some] by blast+
  have "get_prop (allBreakpoints cfg) (calculateBreakpoint cfg w) = Some (snd p)"
    using p(1,2) by (simp add: get_prop_entries)
  moreover have "\<exists>n v. get_prop (allBreakpoints cfg) n = Some v \<and> v \<le> w"
    using p(2,3) by (metis get_prop_entries prod.collapse)
  moreover have "\<forall>n v. get_prop (allBreakpoints cfg) n = Some v \<and> v \<le> w \<longrightarrow> v \<le> snd p"
    using p(4) by (fastforce simp: get_prop_entries)
  ultimately show ?thesis using p(3) by simp
qed

text \<open>
  The table \<open>{sm: 0, lg: 900}\<close>: 899 is \<open>sm\<close>, 900 is \<open>lg\<close>, and a width below
  every threshold is \<open>sm\<close>, the smallest.
\<close>

theorem calculateBreakpoint_greatest_threshold_witness:
  "allBreakpoints (merge_config table_sm_lg) \<noteq> []
   \<and> calculateBreakpoint (merge_config table_sm_lg) 899 = ''sm''
   \<and> calculateBreakpoint (merge_config table_sm_lg) 900 = ''lg''
   \<and> get_prop (allBreakpoints (merge_config table_sm_lg))
        (calculateBreakpoint (merge_config table_sm_lg) 900) = Some 900
   \<and> calculateBreakpoint (merge_config table_sm_lg) (- 1) = ''sm''
   \<and> get_prop (allBreakpoints (merge_config table_sm_lg))
        (calculateBreakpoint (merge_config table_sm_lg) (- 1)) = Some 0"
  using calculateBreakpoint_greatest_threshold [of "merge_config table_sm_lg" 900]
    calculateBreakpoint_greatest_threshold [of "merge_config table_sm_lg" "- 1"]
  by (simp add: classify_defs config_defs object_defs table_sm_lg_def)

text \<open>
  C9. In every computed state, whatever the \<open>md\<close> and \<open>lg\<close> thresholds of the
  configuration, exactly one of \<open>isMobile\<close>, \<open>isTablet\<close>, \<open>isDesktop\<close> is true.
\<close>

theorem device_class_exclusive:
  "(isMobile (calculateState cfg win) \<and> \<not> isTablet (calculateState cfg win)
      \<and> \<not> isDesktop (calculateState cfg win))
   \<or> (isTablet (calculateState cfg win) \<and> \<not> isMobile (calculateState cfg win)
      \<and> \<not> isDesktop (calculateState cfg win))
   \<or> (isDesktop (calculateState cfg win) \<and> \<not> isMobile (calculateState cfg win)
      \<and> \<not> isTablet (calculateState cfg win))"
  by (auto simp: calculateState_def calculateIsMobile_def calculateIsTablet_def Let_def)

theorem device_class_exclusive_witness:
  "isDesktop (calculateState (merge_config empty_config) jsdom_window)
   \<and> \<not> isMobile (calculateState (merge_config empty_config) jsdom_window)
   \<and> \<not> isTablet (calculateState (merge_config empty_config) jsdom_window)"
  using device_class_exclusive [of "merge_config empty_config" jsdom_window]
  by (simp add: classify_defs config_defs object_defs jsdom_window_def)

text \<open>
  C6, as the specification states it, fails: with \<open>customBreakpoints = {md: 500}\<close> the
  merged table has \<open>md = 500\<close> and \<open>lg = 992\<close>, so a width of 600 would be a tablet,
  and the computed state says mobile.
\<close>

theorem device_class_ignores_custom_counterexample:
  "get_prop (allBreakpoints (merge_config custom_md_500)) ''md'' = Some 500
   \<and> get_prop (allBreakpoints (merge_config custom_md_500)) ''lg'' = Some 992
   \<and> innerWidth (jsdom_window\<lparr> innerWidth := 600 \<rparr>) = 600
   \<and> isMobile (calculateState (merge_config custom_md_500) (jsdom_window\<lparr> innerWidth := 600 \<rparr>))
   \<and> \<not> isTablet (calculateState (merge_config custom_md_500) (jsdom_window\<lparr> innerWidth := 600 \<rparr>))"
  by (simp add: classify_defs config_defs object_defs jsdom_window_def custom_md_500_def)

text \<open>
  C6, amended. The flags of a computed state come from the \<open>md\<close> and \<open>lg\<close> entries of
  the \<open>breakpoints\<close> option alone (the default table when the option is absent), each
  replaced by the default 768 or 992 when the entry is missing: below \<open>md\<close> is mobile,
  from \<open>md\<close> to below \<open>lg\<close> is tablet, anything else is desktop.
  \<open>customBreakpoints\<close> is not read.
\<close>

theorem device_class_from_breakpoints_option:
  "isMobile (calculateState (merge_config c) win) =
     (innerWidth win <
        nullish (get_prop (case opt_breakpoints c of None \<Rightarrow> DEFAULT_BREAKPOINTS | Some b \<Rightarrow> b) ''md'') 768)
   \<and> isTablet (calculateState (merge_config c) win) =
     (nullish (get_prop (case opt_breakpoints c of None \<Rightarrow> DEFAULT_BREAKPOINTS | Some b \<Rightarrow> b) ''md'') 768
        \<le> innerWidth win
      \<and> innerWidth win <
        nullish (get_prop (case opt_breakpoints c of None \<Rightarrow> DEFAULT_BREAKPOINTS | Some b \<Rightarrow> b) ''lg'') 992)
   \<and> isDesktop (calculateState (merge_config c) win) =
     (\<not> isMobile (calculateState (merge_config c) win)
      \<and> \<not> isTablet (calculateState (merge_config c) win))"
  by (cases "opt_breakpoints c")
    (simp_all add: calculateState_def calculateIsMobile_def calculateIsTablet_def Let_def
      default_md_768 default_lg_992 merge_config_def DEFAULT_CONFIG_def)

theorem device_class_from_breakpoints_option_witness:
  "isMobile (calculateState (merge_config custom_md_500) (jsdom_window\<lparr> innerWidth := 600 \<rparr>))
     = ((600::int) < 768)"
  using device_class_from_breakpoints_option [of custom_md_500 "jsdom_window\<lparr> innerWidth := 600 \<rparr>"]
  by (simp add: config_defs object_defs jsdom_window_def custom_md_500_def)


text \<open>
  C7, as the specification states it, fails: with \<open>customBreakpoints = {tiny: 0}\<close> the
  merged table holds the default \<open>xs: 0\<close> and, merged later, the custom \<open>tiny: 0\<close>.
  A width of 100 is at that threshold and below 576, and it is classified \<open>xs\<close>.
\<close>

theorem tie_custom_wins_counterexample:
  "get_prop (breakpoints (merge_config custom_tiny)) ''xs'' = Some 0
   \<and> get_prop (customBreakpoints (merge_config custom_tiny)) ''tiny'' = Some 0
   \<and> Object_entries (allBreakpoints (merge_config custom_tiny)) =
       [(''xs'', 0), (''sm'', 576), (''md'', 768), (''lg'', 992), (''xl'', 1200),
        (''xxl'', 1400), (''tiny'', 0)]
   \<and> calculateBreakpoint (merge_config custom_tiny) 100 = ''xs''"
  by (simp add: classify_defs config_defs object_defs custom_tiny_def)

text \<open>
  C7, amended. When entries of the merged table share the threshold that classifies a
  width, the name returned is the one enumerated first among them by \<open>Object.entries\<close>
  (the descending sort is stable). A name that only \<open>customBreakpoints\<close> brings is
  enumerated after the names of \<open>breakpoints\<close>, so it loses the tie to an entry of
  \<open>breakpoints\<close> (for names that are not array indices, which are enumerated first).
\<close>

theorem tie_goes_to_first_enumerated:
  assumes d: "get_prop (allBreakpoints cfg) d = Some t"
    and c: "get_prop (allBreakpoints cfg) c = Some t"
    and w: "t \<le> w"
    and mx: "\<forall>n v. get_prop (allBreakpoints cfg) n = Some v \<and> v \<le> w \<longrightarrow> v \<le> t"
  shows "find (\<lambda>q. snd q = t) (Object_entries (allBreakpoints cfg))
           = Some (calculateBreakpoint cfg w, t)
         \<and> (get_prop (breakpoints cfg) d \<noteq> None \<and> get_prop (breakpoints cfg) c = None
              \<and> \<not> is_array_index d \<and> \<not> is_array_index c
            \<longrightarrow> calculateBreakpoint cfg w \<noteq> c)"
proof -
  let ?E = "Object_entries (allBreakpoints cfg)"
  have dE: "(d, t) \<in> set ?E" and cE: "(c, t) \<in> set ?E"
    using d c by (simp_all add: get_prop_entries)
  have mx': "\<forall>q\<in>set ?E. snd q \<le> w \<longrightarrow> snd q \<le> t"
    using mx by (auto simp: get_prop_entries [symmetric])
  have first: "find (\<lambda>q. snd q = t) ?E = Some (calculateBreakpoint cfg w, t)"
    using dE w mx' by (rule tie_first_enumerated)
  have later: "calculateBreakpoint cfg w \<noteq> c"
    if base: "get_prop (breakpoints cfg) d \<noteq> None" "get_prop (breakpoints cfg) c = None"
      and idx: "\<not> is_array_index d" "\<not> is_array_index c"
  proof -
    have "d \<in> fst ` set (props (breakpoints cfg))"
      using base(1) by (auto simp: get_prop_def dest: map_of_SomeD intro: rev_image_eqI)
    moreover have "c \<notin> fst ` set (props (breakpoints cfg))"
      using base(2) by (simp add: get_prop_def map_of_eq_None_iff)
    moreover have "(d, t) \<in> set (spread (breakpoints cfg) (customBreakpoints cfg))"
      and "(c, t) \<in> set (spread (breakpoints cfg) (customBreakpoints cfg))"
      using dE cE by (simp_all add: set_entries_allBreakpoints) (simp_all add: allBreakpoints_def)
    ultimately obtain xs ys where
      "Object_entries (spread (breakpoints cfg) (customBreakpoints cfg)) = xs @ (d, t) # ys"
      "(c, t) \<in> set ys"
      using spread_order [of d "breakpoints cfg" c t "customBreakpoints cfg" t] idx by blast
    then have "?E = xs @ (d, t) # ys" "(c, t) \<in> set ys"
      by (simp_all add: allBreakpoints_def)
    then show ?thesis using w mx' by (rule tie_later_loses)
  qed
  show ?thesis using first later by blast
qed

theorem tie_goes_to_first_enumerated_witness:
  "get_prop (allBreakpoints (merge_config custom_tiny)) ''xs'' = Some 0
   \<and> get_prop (allBreakpoints (merge_config custom_tiny)) ''tiny'' = Some 0
   \<and> get_prop (breakpoints (merge_config custom_tiny)) ''xs'' \<noteq> None
   \<and> get_prop (breakpoints (merge_config custom_tiny)) ''tiny'' = None
   \<and> \<not> is_array_index ''xs'' \<and> \<not> is_array_index ''tiny''
   \<and> find (\<lambda>q. snd q = 0) (Object_entries (allBreakpoints (merge_config custom_tiny)))
       = Some (calculateBreakpoint (merge_config custom_tiny) 100, 0)
   \<and> calculateBreakpoint (merge_config custom_tiny) 100 \<noteq> ''tiny''"
proof -
  have d: "get_prop (allBreakpoints (merge_config custom_tiny)) ''xs'' = Some 0"
    and c: "get_prop (allBreakpoints (merge_config custom_tiny)) ''tiny'' = Some 0"
    by (simp_all add: classify_defs config_defs object_defs custom_tiny_def)
  have mx: "\<forall>n v. get_prop (allBreakpoints (merge_config custom_tiny)) n = Some v \<and> v \<le> 100
              \<longrightarrow> v \<le> 0"
    by (simp add: classify_defs config_defs object_defs custom_tiny_def)
  have base: "get_prop (breakpoints (merge_config custom_tiny)) ''xs'' \<noteq> None"
      "get_prop (breakpoints (merge_config custom_tiny)) ''tiny'' = None"
      "\<not> is_array_index ''xs''" "\<not> is_array_index ''tiny''"
    by (simp_all add: config_defs object_defs custom_tiny_def)
  show ?thesis
    using tie_goes_to_first_enumerated [OF d c _ mx] d c base by simp
qed

section \<open>Claims on the event manager\<close>




section \<open>Claims on the engine\<close>

lemma started_live: "\<not> isDestroyed (fst (the started))"
  by (simp add: all_defs Let_def)

text \<open>
  C1, as the specification states it, fails. The engine is constructed at 1024 by
  768; the window becomes 480 wide and \<open>updateState\<close> runs. The cycle emits
  \<open>breakpointchange\<close>, then \<open>orientationchange\<close>, and \<open>resize\<close> last.
\<close>

theorem resize_first_counterexample:
  "Option.bind started (\<lambda>world. cycle_events no_actions (Some narrow_window) (fst world))
   = Some [BreakpointChange, OrientationChange, Resize]"
  by (simp add: all_defs Let_def)

text \<open>
  C1, amended. Within one execution of \<open>updateState\<close> that passes its guard, the
  \<open>breakpointchange\<close>, \<open>orientationchange\<close> and \<open>touchchange\<close> events of the cycle
  are emitted first, in this order, and \<open>resize\<close> is emitted after them, as the last
  emission of the cycle. The execution returns when the subscribed callbacks leave the
  registry alone.
\<close>

theorem change_events_precede_resize:
  assumes "\<not> isDestroyed vc"
  shows "(\<forall>vc'. updateState H (Some win) vc = Some vc' \<longrightarrow>
            emitted (eventManager vc') = emitted (eventManager vc)
              @ change_events (currentState vc) (calculateState (config vc) win)
              @ [(Resize, [StateArg (calculateState (config vc) win)])])
         \<and> Resize \<notin> fst ` set (change_events (currentState vc) (calculateState (config vc) win))
         \<and> ((\<forall>e. list_all (quiet H) (registered (eventManager vc) e))
              \<longrightarrow> updateState H (Some win) vc \<noteq> None)"
  using updateState_emitted [OF assms] change_events_no_resize updateState_total [of H vc "Some win"]
  by (metis option.distinct(1))

theorem change_events_precede_resize_witness:
  "\<not> isDestroyed (fst (the started))
   \<and> (\<forall>e. list_all (quiet no_actions) (registered (eventManager (fst (the started))) e))
   \<and> updateState no_actions (Some narrow_window) (fst (the started)) \<noteq> None
   \<and> change_events (currentState (fst (the started)))
        (calculateState (config (fst (the started))) narrow_window)
      = [(BreakpointChange, [NameArg ''xs'', NameArg ''lg'']),
         (OrientationChange, [OrientationArg Portrait])]"
proof -
  have live: "\<not> isDestroyed (fst (the started))" by (rule started_live)
  have q: "\<forall>e. list_all (quiet no_actions) (registered (eventManager (fst (the started))) e)"
    by (simp add: all_defs Let_def)
  have c: "change_events (currentState (fst (the started)))
        (calculateState (config (fst (the started))) narrow_window)
      = [(BreakpointChange, [NameArg ''xs'', NameArg ''lg'']),
         (OrientationChange, [OrientationArg Portrait])]"
    by (simp add: all_defs change_events_def Let_def)
  show ?thesis
    using change_events_precede_resize [OF live, of no_actions narrow_window] live q c by blast
qed




text \<open>
  C3. A burst of signals within one scheduling window should give one recomputation.
  On the frame path it does not: the window goes from 1024 to 480 wide and the media
  queries of \<open>lg\<close>, \<open>md\<close> and \<open>sm\<close> each report a change before the next frame. One
  frame is pending, and when it runs \<open>updateState\<close> executes three times (the
  count goes from 1, the construction, to 4): each listener call passes a new closure
  to \<open>scheduleRAF\<close>, whose set keeps all three. On the debounce path (no
  \<open>ResizeObserver\<close>) three \<open>resize\<close> events leave one timer, and one recomputation.
\<close>

theorem raf_burst_recomputes_per_signal:
  "Option.bind started
     (\<lambda>world. map_option (\<lambda>(vc, host). (updates vc, frames host))
        (run no_actions
           [Viewport 480 768, Native (MediaQuery ''lg''), Native (MediaQuery ''md''),
            Native (MediaQuery ''sm'')] world))
     = Some (1, [0])
   \<and> Option.bind started
     (\<lambda>world. map_option (\<lambda>(vc, host). (updates vc, frames host))
        (run no_actions
           [Viewport 480 768, Native (MediaQuery ''lg''), Native (MediaQuery ''md''),
            Native (MediaQuery ''sm''), Frame 0] world))
     = Some (4, [])
   \<and> Option.bind legacy_started
     (\<lambda>world. map_option (\<lambda>(vc, host). (updates vc, timers host))
        (run no_actions
           [Viewport 480 768, Native Window_resize, Native Window_resize,
            Native Window_resize] world))
     = Some (1, [(2, 100, CallUpdateState)])
   \<and> Option.bind legacy_started
     (\<lambda>world. map_option (\<lambda>(vc, host). (updates vc, timers host))
        (run no_actions
           [Viewport 480 768, Native Window_resize, Native Window_resize,
            Native Window_resize, Timeout 2] world))
     = Some (2, [])"
  by (simp add: all_defs Let_def set_values_def)

text \<open>
  C4. \<open>destroy()\<close> should cancel every pending frame and timer and remove the native
  listeners. An engine without \<open>ResizeObserver\<close> receives a window \<open>resize\<close>, an
  \<open>orientationchange\<close> and a media query change, then \<open>destroy()\<close> is called: the
  animation frame is cancelled, but the debounce timer and the orientation timer are
  still pending and all nine native registrations are still in place.
\<close>

theorem destroy_leaves_timers_and_listeners:
  "Option.bind legacy_started
     (\<lambda>world. map_option (\<lambda>(vc, host). (isDestroyed vc, frames host, timers host, registrations host))
        (run no_actions
           [Native Window_resize, Native Window_orientationchange, Native (MediaQuery ''md''),
            Call_destroy] world))
     = Some (True, [], [(0, 100, CallUpdateState), (1, 100, CallUpdateState)],
         [(Window_resize, DebouncedUpdate), (Window_orientationchange, OrientationListener),
          (VisualViewport_resize, DebouncedUpdate), (MediaQuery ''xs'', MediaQueryListener),
          (MediaQuery ''sm'', MediaQueryListener), (MediaQuery ''md'', MediaQueryListener),
          (MediaQuery ''lg'', MediaQueryListener), (MediaQuery ''xl'', MediaQueryListener),
          (MediaQuery ''xxl'', MediaQueryListener)])"
  by (simp add: all_defs Let_def)

text \<open>
  C10. When the merged breakpoint table is empty, \<open>calculateBreakpoint\<close> returns
  \<open>xs\<close> for every width, and the state \<open>getState()\<close> returns from an engine
  constructed in a browser has the breakpoint \<open>xs\<close>. The table is empty for
  \<open>breakpoints: {}\<close> with no custom breakpoints, since the option replaces the
  default table as a whole.
\<close>

theorem empty_table_classifies_xs:
  assumes "allBreakpoints (merge_config c) = []" and "window host = Some win"
  shows "(\<forall>w. calculateBreakpoint (merge_config c) w = ''xs'')
         \<and> (\<exists>vc host' s. new_ViewportCore H c host = Some (vc, host')
              \<and> getState H (window host') vc = Some (Some s, vc) \<and> breakpoint s = ''xs'')"
proof -
  have e: "Object_entries (allBreakpoints (merge_config c)) = []"
    using assms(1) by (simp add: Object_entries_def props_def)
  have xs: "calculateBreakpoint (merge_config c) w = ''xs''" for w
    by (simp add: calculateBreakpoint_def sortedBreakpoints_def e)
  have "\<exists>vc host'. new_ViewportCore H c host = Some (vc, host')
      \<and> window host' = Some win
      \<and> currentState vc = Some (calculateState (merge_config c) win)"
    using assms(2) e
    by (simp add: new_ViewportCore_def initialize_def setupEventListeners_def
        setupMediaQueries_def addEventListener_def updateState_def emit_def new_EventManager_def
        Let_def)
  then obtain vc host' where n: "new_ViewportCore H c host = Some (vc, host')"
      "window host' = Some win" "currentState vc = Some (calculateState (merge_config c) win)"
    by blast
  have "getState H (window host') vc = Some (Some (calculateState (merge_config c) win), vc)"
    using n(3) by (simp add: getState_def)
  moreover have "breakpoint (calculateState (merge_config c) win) = ''xs''"
    by (simp add: calculateState_def Let_def xs)
  ultimately show ?thesis using n(1) xs by blast
qed

theorem empty_table_classifies_xs_witness:
  "allBreakpoints (merge_config table_empty) = [] \<and> window browser = Some jsdom_window
   \<and> calculateBreakpoint (merge_config table_empty) 1024 = ''xs''
   \<and> (\<exists>vc host' s. new_ViewportCore no_actions table_empty browser = Some (vc, host')
        \<and> getState no_actions (window host') vc = Some (Some s, vc) \<and> breakpoint s = ''xs'')"
proof -
  have a: "allBreakpoints (merge_config table_empty) = []"
    by (simp add: all_defs)
  have b: "window browser = Some jsdom_window" by (simp add: browser_def)
  show ?thesis using empty_table_classifies_xs [OF a b, of no_actions] a b by blast
qed

end
